theory Spec2Isabelle
  imports Complex_Main "HOL-Library.AList"
begin

section \<open>Values of the program\<close>

subsection \<open>Floating-point values\<close>

text \<open>
  The numbers of \<^verbatim>\<open>observations.py\<close> are numpy doubles. They are modelled as the reals
  extended by the three special values of IEEE arithmetic, so that a division by zero and
  an undefined operation have the outcome numpy gives them (an infinity or a NaN, never an
  exception). The range of the doubles is part of the model. A sum, product or quotient
  whose value rounds to an infinity is that infinity: from \<^verbatim>\<open>2**1024 - 2**970\<close> on, half
  a unit in the last place above the largest double. A product or quotient whose value
  rounds to zero is zero: up to \<^verbatim>\<open>2**-1075\<close>, half the smallest double (a sum of doubles
  never underflows). The rounding to 53 bits of a value inside the range, the order in
  which \<^verbatim>\<open>np.sum\<close> adds, and the sign of zero are not modelled.
\<close>

datatype npfloat = Fin real | PInf | NInf | NaN

definition overflow_threshold :: real where
  "overflow_threshold = 2 ^ 1024 - 2 ^ 970"

definition underflow_threshold :: real where
  "underflow_threshold = 1 / 2 ^ 1075"

definition overflow :: "real \<Rightarrow> npfloat" where
  "overflow x =
     (if overflow_threshold \<le> x then PInf
      else if x \<le> - overflow_threshold then NInf
      else Fin x)"

definition in_range :: "real \<Rightarrow> npfloat" where
  "in_range x = (if \<bar>x\<bar> \<le> underflow_threshold then Fin 0 else overflow x)"

fun fadd :: "npfloat \<Rightarrow> npfloat \<Rightarrow> npfloat" where
  "fadd (Fin a) (Fin b) = overflow (a + b)"
| "fadd NaN _ = NaN"
| "fadd _ NaN = NaN"
| "fadd PInf NInf = NaN"
| "fadd NInf PInf = NaN"
| "fadd PInf _ = PInf"
| "fadd _ PInf = PInf"
| "fadd NInf _ = NInf"
| "fadd _ NInf = NInf"

fun fmul :: "npfloat \<Rightarrow> npfloat \<Rightarrow> npfloat" where
  "fmul (Fin a) (Fin b) = in_range (a * b)"
| "fmul NaN _ = NaN"
| "fmul _ NaN = NaN"
| "fmul (Fin a) PInf = (if a = 0 then NaN else if 0 < a then PInf else NInf)"
| "fmul (Fin a) NInf = (if a = 0 then NaN else if 0 < a then NInf else PInf)"
| "fmul PInf (Fin b) = (if b = 0 then NaN else if 0 < b then PInf else NInf)"
| "fmul NInf (Fin b) = (if b = 0 then NaN else if 0 < b then NInf else PInf)"
| "fmul PInf PInf = PInf"
| "fmul PInf NInf = NInf"
| "fmul NInf PInf = NInf"
| "fmul NInf NInf = PInf"

fun fdiv :: "npfloat \<Rightarrow> npfloat \<Rightarrow> npfloat" where
  "fdiv (Fin a) (Fin b) =
     (if b \<noteq> 0 then in_range (a / b)
      else if a = 0 then NaN else if 0 < a then PInf else NInf)"
| "fdiv NaN _ = NaN"
| "fdiv _ NaN = NaN"
| "fdiv (Fin a) PInf = Fin 0"
| "fdiv (Fin a) NInf = Fin 0"
| "fdiv PInf (Fin b) = (if 0 \<le> b then PInf else NInf)"
| "fdiv NInf (Fin b) = (if 0 \<le> b then NInf else PInf)"
| "fdiv PInf PInf = NaN"
| "fdiv PInf NInf = NaN"
| "fdiv NInf PInf = NaN"
| "fdiv NInf NInf = NaN"

fun fabs :: "npfloat \<Rightarrow> npfloat" where
  "fabs (Fin a) = Fin \<bar>a\<bar>"
| "fabs PInf = PInf"
| "fabs NInf = PInf"
| "fabs NaN = NaN"

text \<open>Comparisons: every comparison with a NaN is false.\<close>

fun flt :: "npfloat \<Rightarrow> npfloat \<Rightarrow> bool" where
  "flt (Fin a) (Fin b) = (a < b)"
| "flt NaN _ = False"
| "flt _ NaN = False"
| "flt NInf NInf = False"
| "flt NInf _ = True"
| "flt PInf _ = False"
| "flt _ PInf = True"
| "flt _ NInf = False"

fun fle :: "npfloat \<Rightarrow> npfloat \<Rightarrow> bool" where
  "fle (Fin a) (Fin b) = (a \<le> b)"
| "fle NaN _ = False"
| "fle _ NaN = False"
| "fle NInf _ = True"
| "fle _ PInf = True"
| "fle PInf _ = False"
| "fle _ NInf = False"

definition fgt :: "npfloat \<Rightarrow> npfloat \<Rightarrow> bool" where
  "fgt x y = flt y x"

fun flog10 :: "npfloat \<Rightarrow> npfloat" where
  "flog10 (Fin a) = (if 0 < a then Fin (log 10 a) else if a = 0 then NInf else NaN)"
| "flog10 PInf = PInf"
| "flog10 NInf = NaN"
| "flog10 NaN = NaN"

text \<open>\<^verbatim>\<open>np.maximum\<close>, the binary step of \<^verbatim>\<open>np.max\<close>: a NaN wins.\<close>

fun fmax :: "npfloat \<Rightarrow> npfloat \<Rightarrow> npfloat" where
  "fmax NaN _ = NaN"
| "fmax _ NaN = NaN"
| "fmax x y = (if flt x y then y else x)"

subsection \<open>Exceptions\<close>

datatype pyerror =
    ValueError
  | KeyError
  | IndexError
  | AttributeError
  | NotImplementedError string

text \<open>Running a fallible function over a list: the first exception ends the traversal.\<close>

fun map_r :: "('a \<Rightarrow> pyerror + 'b) \<Rightarrow> 'a list \<Rightarrow> pyerror + 'b list" where
  "map_r f [] = Inr []"
| "map_r f (x # xs) =
     (case f x of
        Inl e \<Rightarrow> Inl e
      | Inr y \<Rightarrow> (case map_r f xs of Inl e \<Rightarrow> Inl e | Inr ys \<Rightarrow> Inr (y # ys)))"

subsection \<open>Strings\<close>

text \<open>
  \<^verbatim>\<open>str.upper\<close> and \<^verbatim>\<open>str.lower\<close> on ASCII text (filter identifiers are ASCII),
  \<^verbatim>\<open>str.split(sep="_")\<close> and \<^verbatim>\<open>"\n".join\<close>.
\<close>

definition upper_char :: "char \<Rightarrow> char" where
  "upper_char c =
     (case map_of (zip ''abcdefghijklmnopqrstuvwxyz'' ''ABCDEFGHIJKLMNOPQRSTUVWXYZ'') c of
        Some u \<Rightarrow> u
      | None \<Rightarrow> c)"

definition lower_char :: "char \<Rightarrow> char" where
  "lower_char c =
     (case map_of (zip ''ABCDEFGHIJKLMNOPQRSTUVWXYZ'' ''abcdefghijklmnopqrstuvwxyz'') c of
        Some l \<Rightarrow> l
      | None \<Rightarrow> c)"

definition upper :: "string \<Rightarrow> string" where
  "upper s = map upper_char s"

definition lower :: "string \<Rightarrow> string" where
  "lower s = map lower_char s"

fun split_sep :: "char \<Rightarrow> string \<Rightarrow> string list" where
  "split_sep sep [] = [[]]"
| "split_sep sep (c # cs) =
     (if c = sep then [] # split_sep sep cs
      else (case split_sep sep cs of
              [] \<Rightarrow> [[c]]
            | w # ws \<Rightarrow> (c # w) # ws))"

fun join :: "string \<Rightarrow> string list \<Rightarrow> string" where
  "join sep [] = []"
| "join sep [x] = x"
| "join sep (x # y # ys) = x @ sep @ join sep (y # ys)"

text \<open>\<^verbatim>\<open>list.index\<close>: the position of the first occurrence.\<close>

fun py_index :: "'a list \<Rightarrow> 'a \<Rightarrow> pyerror + nat" where
  "py_index [] x = Inl ValueError"
| "py_index (y # ys) x =
     (if y = x then Inr 0
      else (case py_index ys x of Inl e \<Rightarrow> Inl e | Inr k \<Rightarrow> Inr (Suc k)))"

text \<open>The band token of a filter identifier: \<^verbatim>\<open>filter.split(sep="_")[-1].upper()\<close>.\<close>

definition band_name :: "string \<Rightarrow> string" where
  "band_name f = upper (last (split_sep CHR ''_'' f))"

subsection \<open>Arrays\<close>

text \<open>
  A one-dimensional array is a list, a two-dimensional array the list of its rows. The
  shapes of the grid and of the noise model are fixed by their types in the program
  (\<^verbatim>\<open>seds\<close> and the three noise arrays are models by filters); reads out of range raise
  \<^verbatim>\<open>IndexError\<close>.
\<close>

text \<open>\<^verbatim>\<open>np.sum\<close>.\<close>

definition np_sum :: "npfloat list \<Rightarrow> npfloat" where
  "np_sum xs = foldl fadd (Fin 0) xs"

text \<open>\<^verbatim>\<open>np.max\<close> of one row, and \<^verbatim>\<open>np.max(a, axis=1)\<close>: a reduction over no element raises.\<close>

fun np_max :: "npfloat list \<Rightarrow> pyerror + npfloat" where
  "np_max [] = Inl ValueError"
| "np_max (x # xs) = Inr (foldl fmax x xs)"

definition np_max_axis1 :: "npfloat list list \<Rightarrow> pyerror + npfloat list" where
  "np_max_axis1 a = map_r np_max a"

text \<open>The builtins \<^verbatim>\<open>min\<close> and \<^verbatim>\<open>max\<close> over a sequence: an empty one raises.\<close>

fun py_min :: "npfloat list \<Rightarrow> pyerror + npfloat" where
  "py_min [] = Inl ValueError"
| "py_min (x # xs) = Inr (foldl (\<lambda>m y. if flt y m then y else m) x xs)"

fun py_max :: "npfloat list \<Rightarrow> pyerror + npfloat" where
  "py_max [] = Inl ValueError"
| "py_max (x # xs) = Inr (foldl (\<lambda>m y. if flt m y then y else m) x xs)"

text \<open>\<^verbatim>\<open>xs[k]\<close> for a non-negative \<open>k\<close>.\<close>

definition py_nth :: "'a list \<Rightarrow> nat \<Rightarrow> pyerror + 'a" where
  "py_nth xs k = (if k < length xs then Inr (xs ! k) else Inl IndexError)"

text \<open>The slice \<^verbatim>\<open>a[:, k]\<close>, and the index arrays \<^verbatim>\<open>xs[indx]\<close> and \<^verbatim>\<open>a[indx, k]\<close>.\<close>

definition np_col :: "npfloat list list \<Rightarrow> nat \<Rightarrow> pyerror + npfloat list" where
  "np_col a k = map_r (\<lambda>row. py_nth row k) a"

definition np_take :: "npfloat list \<Rightarrow> nat list \<Rightarrow> pyerror + npfloat list" where
  "np_take xs indx = map_r (py_nth xs) indx"

definition np_take2 :: "npfloat list list \<Rightarrow> nat list \<Rightarrow> nat \<Rightarrow> pyerror + npfloat list" where
  "np_take2 a indx k =
     map_r (\<lambda>i. case py_nth a i of Inl e \<Rightarrow> Inl e | Inr row \<Rightarrow> py_nth row k) indx"

text \<open>
  An elementwise operation on two one-dimensional arrays, with numpy's broadcasting: the
  lengths agree, or one of them is 1.
\<close>

definition np_binop ::
  "(npfloat \<Rightarrow> npfloat \<Rightarrow> npfloat) \<Rightarrow> npfloat list \<Rightarrow> npfloat list \<Rightarrow> pyerror + npfloat list"
where
  "np_binop f xs ys =
     (if length xs = length ys then Inr (map2 f xs ys)
      else if length xs = 1 then Inr (map (f (hd xs)) ys)
      else if length ys = 1 then Inr (map (\<lambda>x. f x (hd ys)) xs)
      else Inl ValueError)"

text \<open>
  Boolean-mask reads and writes: \<^verbatim>\<open>a[mask]\<close>, \<^verbatim>\<open>a[mask] = values\<close> (one value for each
  true entry of the mask, in order) and \<^verbatim>\<open>a[mask] = scalar\<close>.
\<close>

fun mask_get :: "'a list \<Rightarrow> bool list \<Rightarrow> 'a list" where
  "mask_get (x # xs) (b # bs) = (if b then x # mask_get xs bs else mask_get xs bs)"
| "mask_get _ _ = []"

fun mask_set :: "'a list \<Rightarrow> bool list \<Rightarrow> 'a list \<Rightarrow> 'a list" where
  "mask_set (x # xs) (True # bs) (v # vs) = v # mask_set xs bs vs"
| "mask_set (x # xs) (False # bs) vs = x # mask_set xs bs vs"
| "mask_set xs _ _ = xs"

fun mask_fill :: "'a list \<Rightarrow> bool list \<Rightarrow> 'a \<Rightarrow> 'a list" where
  "mask_fill (x # xs) (b # bs) v = (if b then v else x) # mask_fill xs bs v"
| "mask_fill xs _ _ = xs"

subsection \<open>Tables\<close>

text \<open>
  An astropy \<^verbatim>\<open>Table\<close> is the ordered list of its named columns. \<^verbatim>\<open>ot[name] = Column(...)\<close>
  appends a column under a new name and replaces, in place, the column of a name the table
  already has; the table stores a copy of the data. Every column the generator stores has
  one entry for each drawn index, so the table's check of the column length cannot fail.
\<close>

type_synonym table = "(string \<times> npfloat list) list"

definition set_col :: "table \<Rightarrow> string \<Rightarrow> npfloat list \<Rightarrow> table" where
  "set_col ot name col = AList.update name col ot"

definition get_col :: "table \<Rightarrow> string \<Rightarrow> pyerror + npfloat list" where
  "get_col ot name = (case map_of ot name of None \<Rightarrow> Inl KeyError | Some col \<Rightarrow> Inr col)"

definition colnames :: "table \<Rightarrow> string list" where
  "colnames ot = map fst ot"

section \<open>The inputs of the generator\<close>

text \<open>
  The model grid: the SEDs (models by filters), the filter identifiers, and the named
  columns of the grid (the weights and the physical parameters), what \<^verbatim>\<open>sedgrid.keys()\<close>
  and \<^verbatim>\<open>sedgrid[name]\<close> read. The noise model: the three arrays under the keys
  \<^verbatim>\<open>"bias"\<close>, \<^verbatim>\<open>"error"\<close> and \<^verbatim>\<open>"completeness"\<close>.
\<close>

record sedgrid =
  seds :: "npfloat list list"
  filters :: "string list"
  cols :: "(string \<times> npfloat list) list"

record noisemodel =
  bias :: "npfloat list list"
  error :: "npfloat list list"
  completeness :: "npfloat list list"

definition grid_keys :: "sedgrid \<Rightarrow> string list" where
  "grid_keys g = map fst (cols g)"

definition grid_col :: "sedgrid \<Rightarrow> string \<Rightarrow> pyerror + npfloat list" where
  "grid_col g name = (case map_of (cols g) name of None \<Rightarrow> Inl KeyError | Some c \<Rightarrow> Inr c)"

section \<open>The world around the generator\<close>

text \<open>
  The generator reads and writes the process-wide random state of \<^verbatim>\<open>numpy.random\<close> and
  prints to the standard output. Both are state of the model: \<open>rng\<close> is the random state,
  \<open>stdout\<close> the values printed so far.
\<close>

datatype out =
    OutStr string
  | OutArr "npfloat list"
  | OutPair npfloat npfloat

record 'r world =
  rng :: 'r
  stdout :: "out list"

text \<open>
  What the generator calls and this file does not define is a parameter of the model:
  \<^verbatim>\<open>np.random.seed\<close>, \<^verbatim>\<open>np.random.choice(range(n), size=nsim, p=p)\<close>,
  \<^verbatim>\<open>np.random.normal(loc=loc, scale=scale)\<close>, and \<^verbatim>\<open>Vega(source=vega_fname).getFlux(filters)\<close>
  of \<^verbatim>\<open>beast.observationmodel.vega\<close>, of which only the second component of the result is
  used. A call that raises leaves the random state as it was.
\<close>

record 'r env =
  np_seed :: "int option \<Rightarrow> 'r \<Rightarrow> pyerror + 'r"
  np_choice :: "nat \<Rightarrow> nat \<Rightarrow> npfloat list \<Rightarrow> 'r \<Rightarrow> pyerror + nat list \<times> 'r"
  np_normal :: "npfloat list \<Rightarrow> npfloat list \<Rightarrow> 'r \<Rightarrow> pyerror + npfloat list \<times> 'r"
  vega_getFlux :: "string option \<Rightarrow> string list \<Rightarrow> pyerror + npfloat list"

text \<open>A computation in the world: it ends with a value or an exception, in a new world.\<close>

type_synonym ('a, 'r) comp = "'r world \<Rightarrow> (pyerror + 'a) \<times> 'r world"

definition lift :: "pyerror + 'a \<Rightarrow> ('a, 'r) comp" where
  "lift x = (\<lambda>w. (x, w))"

definition bind_c :: "('a, 'r) comp \<Rightarrow> ('a \<Rightarrow> ('b, 'r) comp) \<Rightarrow> ('b, 'r) comp" where
  "bind_c m f = (\<lambda>w. case m w of (Inl e, w') \<Rightarrow> (Inl e, w') | (Inr a, w') \<Rightarrow> f a w')"

definition print_c :: "out \<Rightarrow> (unit, 'r) comp" where
  "print_c x = (\<lambda>w. (Inr (), w\<lparr>stdout := stdout w @ [x]\<rparr>))"

definition seed_c :: "'r env \<Rightarrow> int option \<Rightarrow> (unit, 'r) comp" where
  "seed_c E ranseed =
     (\<lambda>w. case np_seed E ranseed (rng w) of
             Inl e \<Rightarrow> (Inl e, w)
           | Inr r \<Rightarrow> (Inr (), w\<lparr>rng := r\<rparr>))"

definition rng_c :: "('r \<Rightarrow> pyerror + 'a \<times> 'r) \<Rightarrow> ('a, 'r) comp" where
  "rng_c f =
     (\<lambda>w. case f (rng w) of
             Inl e \<Rightarrow> (Inl e, w)
           | Inr (a, r) \<Rightarrow> (Inr a, w\<lparr>rng := r\<rparr>))"

section \<open>The generator \<^verbatim>\<open>gen_SimObs_from_sedgrid\<close>\<close>

text \<open>
  Lines 269 to 283: one completeness value for each model, the maximum over the filters
  or the column of the requested filter.
\<close>

definition short_filters :: "sedgrid \<Rightarrow> string list" where
  "short_filters g = map band_name (filters g)"

definition not_present_message :: "string \<Rightarrow> string list \<Rightarrow> string" where
  "not_present_message compl_filter shorts =
     ''Requested completeness filter not present:'' @ upper compl_filter
     @ [CHR 0x0A] @ ''Possible filters:'' @ join [CHR 0x0A] shorts"

definition get_model_compl :: "sedgrid \<Rightarrow> noisemodel \<Rightarrow> string \<Rightarrow> (npfloat list, 'r) comp" where
  "get_model_compl g nm compl_filter =
     (if lower compl_filter = ''max'' then lift (np_max_axis1 (completeness nm))
      else if upper compl_filter \<notin> set (short_filters g)
        then lift (Inl (NotImplementedError
                          (not_present_message compl_filter (short_filters g))))
      else
        bind_c (lift (py_index (short_filters g) (upper compl_filter))) (\<lambda>filter_k.
        bind_c (lift (py_nth (filters g) filter_k)) (\<lambda>fname.
        bind_c (print_c (OutStr (''Completeness from '' @ fname))) (\<lambda>_.
        lift (np_col (completeness nm) filter_k)))))"

text \<open>Line 285.\<close>

definition print_range :: "npfloat list \<Rightarrow> (unit, 'r) comp" where
  "print_range model_compl =
     bind_c (lift (py_min model_compl)) (\<lambda>lo.
     bind_c (lift (py_max model_compl)) (\<lambda>hi.
     print_c (OutPair lo hi)))"

text \<open>Lines 291 to 293: the selection weights, and their normalisation.\<close>

definition raw_weights :: "sedgrid \<Rightarrow> string \<Rightarrow> npfloat list \<Rightarrow> pyerror + npfloat list" where
  "raw_weights g weight_to_use model_compl =
     (case grid_col g weight_to_use of
        Inl e \<Rightarrow> Inl e
      | Inr wts \<Rightarrow> np_binop fmul wts model_compl)"

definition normalise :: "npfloat list \<Rightarrow> npfloat list" where
  "normalise gridweights = map (\<lambda>x. fdiv x (np_sum gridweights)) gridweights"

definition get_gridweights :: "sedgrid \<Rightarrow> string \<Rightarrow> npfloat list \<Rightarrow> pyerror + npfloat list" where
  "get_gridweights g weight_to_use model_compl =
     (case raw_weights g weight_to_use model_compl of
        Inl e \<Rightarrow> Inl e
      | Inr gridweights \<Rightarrow> Inr (normalise gridweights))"

text \<open>
  Lines 296 to 301. The guard \<^verbatim>\<open>if not None:\<close> is always taken: the random state is seeded
  with \<^verbatim>\<open>ranseed\<close> in every call, also when \<^verbatim>\<open>ranseed\<close> is \<^verbatim>\<open>None\<close>.
\<close>

definition sample_indx ::
  "'r env \<Rightarrow> nat \<Rightarrow> nat \<Rightarrow> npfloat list \<Rightarrow> int option \<Rightarrow> (nat list, 'r) comp"
where
  "sample_indx E n_models nsim gridweights ranseed =
     bind_c (seed_c E ranseed) (\<lambda>_.
     rng_c (np_choice E n_models nsim gridweights))"

text \<open>
  Lines 326 to 330 and 341 to 345: the magnitude column of a rate column. It starts as a
  copy of the rates; the entries of positive rate are overwritten by the magnitudes, the
  entries of rate at most zero by the sentinel.
\<close>

definition vega_mag :: "npfloat list \<Rightarrow> npfloat list" where
  "vega_mag rate =
     (let pindxs = map (\<lambda>r. fgt r (Fin 0)) rate;
          nindxs = map (\<lambda>r. fle r (Fin 0)) rate;
          mag = rate;
          mag = mask_set mag pindxs
                  (map (\<lambda>r. fmul (Fin (- 2.5)) (flog10 r)) (mask_get rate pindxs));
          mag = mask_fill mag nindxs (Fin (- 99.999))
      in mag)"

text \<open>
  Lines 324 to 330 and 339 to 345: a flux column, the rate column computed from the
  stored flux column and the magnitude column computed from the stored rate column.
\<close>

definition add_photometry ::
  "table \<Rightarrow> string \<Rightarrow> string \<Rightarrow> string \<Rightarrow> npfloat list \<Rightarrow> npfloat \<Rightarrow> pyerror + table"
where
  "add_photometry ot fluxname colname magname flux vega =
     (let ot = set_col ot fluxname flux in
      case get_col ot fluxname of
        Inl e \<Rightarrow> Inl e
      | Inr f \<Rightarrow>
          (let ot = set_col ot colname (map (\<lambda>x. fdiv x vega) f) in
           case get_col ot colname of
             Inl e \<Rightarrow> Inl e
           | Inr rate \<Rightarrow> Inr (set_col ot magname (vega_mag rate))))"

text \<open>Lines 311 to 345: the body of the loop over the filters, for filter \<open>k\<close>.\<close>

definition sim_filter ::
  "'r env \<Rightarrow> npfloat list list \<Rightarrow> npfloat list list \<Rightarrow> npfloat list list \<Rightarrow> npfloat list
     \<Rightarrow> nat list \<Rightarrow> npfloat list \<Rightarrow> nat \<Rightarrow> string \<Rightarrow> table \<Rightarrow> (table, 'r) comp"
where
  "sim_filter E flux model_bias model_unc model_compl sim_indx vega_flux k filt ot =
     bind_c (print_c (OutStr filt)) (\<lambda>_.
     bind_c (lift (np_take2 flux sim_indx k)) (\<lambda>f.
     bind_c (lift (np_take2 model_bias sim_indx k)) (\<lambda>b.
     bind_c (lift (np_binop fadd f b)) (\<lambda>simflux_wbias.
     bind_c (print_c (OutArr f)) (\<lambda>_.
     bind_c (print_c (OutArr b)) (\<lambda>_.
     bind_c (lift (np_take2 model_unc sim_indx k)) (\<lambda>u.
     bind_c (print_c (OutArr u)) (\<lambda>_.
     bind_c (lift (np_take model_compl sim_indx)) (\<lambda>c.
     bind_c (print_c (OutArr c)) (\<lambda>_.
     bind_c (rng_c (np_normal E simflux_wbias u)) (\<lambda>simflux.
     bind_c (lift (py_nth vega_flux k)) (\<lambda>vega.
     bind_c (lift (add_photometry ot
                     (band_name filt @ ''_FLUX'') (band_name filt @ ''_RATE'')
                     (band_name filt @ ''_VEGA'') simflux vega)) (\<lambda>ot.
     lift (add_photometry ot
             (band_name filt @ ''_INPUT_FLUX'') (band_name filt @ ''_INPUT_RATE'')
             (band_name filt @ ''_INPUT_VEGA'') f vega))))))))))))))"

text \<open>Line 310: the loop, over \<^verbatim>\<open>enumerate(sedgrid.filters)\<close> from position \<open>k\<close> on.\<close>

fun sim_filters ::
  "'r env \<Rightarrow> npfloat list list \<Rightarrow> npfloat list list \<Rightarrow> npfloat list list \<Rightarrow> npfloat list
     \<Rightarrow> nat list \<Rightarrow> npfloat list \<Rightarrow> nat \<Rightarrow> string list \<Rightarrow> table \<Rightarrow> (table, 'r) comp"
where
  "sim_filters E flux model_bias model_unc model_compl sim_indx vega_flux k [] ot =
     lift (Inr ot)"
| "sim_filters E flux model_bias model_unc model_compl sim_indx vega_flux k (filt # fs) ot =
     bind_c (sim_filter E flux model_bias model_unc model_compl sim_indx vega_flux k filt ot)
       (sim_filters E flux model_bias model_unc model_compl sim_indx vega_flux (Suc k) fs)"

text \<open>Lines 348 and 349: the columns of the grid, at the drawn indices.\<close>

fun sim_params :: "sedgrid \<Rightarrow> nat list \<Rightarrow> string list \<Rightarrow> table \<Rightarrow> pyerror + table" where
  "sim_params g sim_indx [] ot = Inr ot"
| "sim_params g sim_indx (qname # qnames) ot =
     (case grid_col g qname of
        Inl e \<Rightarrow> Inl e
      | Inr c \<Rightarrow>
          (case np_take c sim_indx of
             Inl e \<Rightarrow> Inl e
           | Inr v \<Rightarrow> sim_params g sim_indx qnames (set_col ot qname v)))"

text \<open>
  Lines 259 to 351. The drawn indices are returned beside the table, to state what the
  table holds; the program returns the table.
\<close>

definition gen_SimObs_indexed ::
  "'r env \<Rightarrow> sedgrid \<Rightarrow> noisemodel \<Rightarrow> nat \<Rightarrow> string \<Rightarrow> int option \<Rightarrow> string option \<Rightarrow> string
     \<Rightarrow> (nat list \<times> table, 'r) comp"
where
  "gen_SimObs_indexed E g nm nsim compl_filter ranseed vega_fname weight_to_use =
     (let flux = seds g;
          n_models = length flux;
          model_bias = bias nm;
          model_unc = map (map fabs) (error nm)
      in
        bind_c (get_model_compl g nm compl_filter) (\<lambda>model_compl.
        bind_c (print_range model_compl) (\<lambda>_.
        bind_c (lift (get_gridweights g weight_to_use model_compl)) (\<lambda>gridweights.
        bind_c (sample_indx E n_models nsim gridweights ranseed) (\<lambda>sim_indx.
        bind_c (lift (vega_getFlux E vega_fname (filters g))) (\<lambda>vega_flux.
        bind_c (sim_filters E flux model_bias model_unc model_compl sim_indx vega_flux
                  0 (filters g) []) (\<lambda>ot.
        bind_c (lift (sim_params g sim_indx (grid_keys g) ot)) (\<lambda>ot.
        lift (Inr (sim_indx, ot))))))))))"

definition gen_SimObs_from_sedgrid ::
  "'r env \<Rightarrow> sedgrid \<Rightarrow> noisemodel \<Rightarrow> nat \<Rightarrow> string \<Rightarrow> int option \<Rightarrow> string option \<Rightarrow> string
     \<Rightarrow> (table, 'r) comp"
where
  "gen_SimObs_from_sedgrid E g nm nsim compl_filter ranseed vega_fname weight_to_use =
     bind_c (gen_SimObs_indexed E g nm nsim compl_filter ranseed vega_fname weight_to_use)
       (\<lambda>(sim_indx, ot). lift (Inr ot))"

section \<open>What the generator expects of its surroundings\<close>

text \<open>
  The columns of the grid and the rows of the noise model are indexed by the models of the
  grid, and each row holds one entry for each filter.
\<close>

definition shapes_agree :: "sedgrid \<Rightarrow> noisemodel \<Rightarrow> bool" where
  "shapes_agree g nm \<longleftrightarrow>
     list_all (\<lambda>row. length row = length (filters g)) (seds g) \<and>
     list_all (\<lambda>c. length (snd c) = length (seds g)) (cols g) \<and>
     length (bias nm) = length (seds g) \<and>
     list_all (\<lambda>row. length row = length (filters g)) (bias nm) \<and>
     length (error nm) = length (seds g) \<and>
     list_all (\<lambda>row. length row = length (filters g)) (error nm) \<and>
     length (completeness nm) = length (seds g) \<and>
     list_all (\<lambda>row. length row = length (filters g)) (completeness nm)"

text \<open>
  The checks \<^verbatim>\<open>numpy.random.choice\<close> makes on \<^verbatim>\<open>p\<close> before it draws: the population is
  not empty, \<^verbatim>\<open>p\<close> has one entry for each member, its sum is not a NaN, no entry is
  negative, and the sum is 1 up to the square root of the machine epsilon, \<open>2\<^sup>-\<^sup>2\<^sup>6\<close>.
\<close>

definition valid_p :: "nat \<Rightarrow> npfloat list \<Rightarrow> bool" where
  "valid_p n p \<longleftrightarrow>
     n \<noteq> 0 \<and> length p = n \<and> np_sum p \<noteq> NaN \<and> list_all (\<lambda>x. \<not> flt x (Fin 0)) p \<and>
     \<not> fgt (fabs (fadd (np_sum p) (Fin (- 1)))) (Fin (1 / 2 ^ 26))"

definition choice_checks_p :: "'r env \<Rightarrow> bool" where
  "choice_checks_p E \<longleftrightarrow>
     (\<forall>n size p r. \<not> valid_p n p \<longrightarrow> (\<exists>e. np_choice E n size p r = Inl e))"

text \<open>A draw of \<^verbatim>\<open>size\<close> members of \<^verbatim>\<open>range(n)\<close> is \<^verbatim>\<open>size\<close> indices below \<open>n\<close>.\<close>

definition choice_draws :: "'r env \<Rightarrow> bool" where
  "choice_draws E \<longleftrightarrow>
     (\<forall>n size p r indx r'. np_choice E n size p r = Inr (indx, r') \<longrightarrow>
        length indx = size \<and> list_all (\<lambda>i. i < n) indx)"

text \<open>Seeding with an integer forgets the random state there was.\<close>

definition seed_resets :: "'r env \<Rightarrow> bool" where
  "seed_resets E \<longleftrightarrow> (\<forall>s r r'. np_seed E (Some s) r = np_seed E (Some s) r')"

text \<open>
  \<^verbatim>\<open>numpy.random.normal\<close> raises on a negative scale only, returns one draw for each
  location, and a draw of scale zero is the location.
\<close>

definition normal_draws :: "'r env \<Rightarrow> bool" where
  "normal_draws E \<longleftrightarrow>
     (\<forall>loc scale r.
        length loc = length scale \<and> list_all (\<lambda>s. \<not> flt s (Fin 0)) scale \<longrightarrow>
        (\<exists>x r'. np_normal E loc scale r = Inr (x, r') \<and> length x = length loc \<and>
                 (\<forall>j<length loc. scale ! j = Fin 0 \<longrightarrow> x ! j = loc ! j)))"

section \<open>How a computation depends on the world\<close>

text \<open>
  \<open>no_rng\<close>: the result does not depend on the world, and the random state is left as
  it is. \<open>by_rng\<close>: the result and the new random state depend on the random state only.
  \<open>reseeds\<close>: the result does not depend on the world, and neither does the random state
  after a run that returns.
\<close>

definition no_rng :: "('a, 'r) comp \<Rightarrow> bool" where
  "no_rng m \<longleftrightarrow> (\<forall>w1 w2. fst (m w1) = fst (m w2)) \<and> (\<forall>w. rng (snd (m w)) = rng w)"

definition by_rng :: "('a, 'r) comp \<Rightarrow> bool" where
  "by_rng m \<longleftrightarrow>
     (\<forall>w1 w2. rng w1 = rng w2 \<longrightarrow>
        fst (m w1) = fst (m w2) \<and> rng (snd (m w1)) = rng (snd (m w2)))"

definition reseeds :: "('a, 'r) comp \<Rightarrow> bool" where
  "reseeds m \<longleftrightarrow>
     (\<forall>w1 w2. fst (m w1) = fst (m w2) \<and>
        (\<forall>a. fst (m w1) = Inr a \<longrightarrow> rng (snd (m w1)) = rng (snd (m w2))))"

section \<open>The catalog interface \<^verbatim>\<open>Observations\<close>\<close>

text \<open>
  The catalog \<^verbatim>\<open>self.data\<close> is a table of \<open>nrows\<close> records; \<^verbatim>\<open>data[num]\<close> is a record
  (negative numbers count from the end), \<^verbatim>\<open>d[name]\<close> the entry of a record in a column and
  \<^verbatim>\<open>data[name][num]\<close> an entry of a column. \<^verbatim>\<open>vega_flux\<close> is \<^verbatim>\<open>None\<close> until the reference
  fluxes are set.
\<close>

record catalog =
  nrows :: nat
  columns :: "(string \<times> npfloat list) list"

record observations =
  obs_filters :: "string list"
  filter_aliases :: "(string \<times> string) list"
  data :: catalog
  obs_vega_flux :: "npfloat list option"

text \<open>Lines 55 to 57: the aliases, from the filters and the column names of the catalog.\<close>

fun init_aliases :: "string list \<Rightarrow> string list \<Rightarrow> nat \<Rightarrow> (string \<times> string) list
    \<Rightarrow> pyerror + (string \<times> string) list" where
  "init_aliases [] obs_colnames ik aliases = Inr aliases"
| "init_aliases (k # ks) obs_colnames ik aliases =
     (case py_nth obs_colnames ik of
        Inl e \<Rightarrow> Inl e
      | Inr c \<Rightarrow> init_aliases ks obs_colnames (Suc ik) (AList.update k c aliases))"

definition nObs :: "observations \<Rightarrow> nat" where
  "nObs obs = nrows (data obs)"

definition py_item :: "'a list \<Rightarrow> int \<Rightarrow> pyerror + 'a" where
  "py_item xs i =
     (let n = int (length xs)
      in if 0 \<le> i \<and> i < n then Inr (xs ! nat i)
         else if - n \<le> i \<and> i < 0 then Inr (xs ! nat (n + i))
         else Inl IndexError)"

definition table_row :: "catalog \<Rightarrow> int \<Rightarrow> pyerror + nat" where
  "table_row t num =
     (let n = int (nrows t)
      in if 0 \<le> num \<and> num < n then Inr (nat num)
         else if - n \<le> num \<and> num < 0 then Inr (nat (n + num))
         else Inl IndexError)"

definition row_item :: "catalog \<Rightarrow> nat \<Rightarrow> string \<Rightarrow> pyerror + npfloat" where
  "row_item t d name =
     (case map_of (columns t) name of None \<Rightarrow> Inl KeyError | Some c \<Rightarrow> py_nth c d)"

text \<open>
  Lines 153 to 167. With \<^verbatim>\<open>units=True\<close> the function reads the attribute \<^verbatim>\<open>erg\<close> of the
  boolean itself.
\<close>

definition getFlux :: "observations \<Rightarrow> int \<Rightarrow> bool \<Rightarrow> pyerror + npfloat list" where
  "getFlux obs num units =
     (case obs_vega_flux obs of
        None \<Rightarrow> Inl ValueError
      | Some vega \<Rightarrow>
          (case table_row (data obs) num of
             Inl e \<Rightarrow> Inl e
           | Inr d \<Rightarrow>
               (case map_r (\<lambda>ok. case map_of (filter_aliases obs) ok of
                                    None \<Rightarrow> Inl KeyError
                                  | Some alias \<Rightarrow> row_item (data obs) d alias)
                       (obs_filters obs) of
                  Inl e \<Rightarrow> Inl e
                | Inr vals \<Rightarrow>
                    (case np_binop fmul vals vega of
                       Inl e \<Rightarrow> Inl e
                     | Inr flux \<Rightarrow> if units then Inl AttributeError else Inr flux))))"

text \<open>Lines 173 to 178.\<close>

definition getFluxerr :: "observations \<Rightarrow> int \<Rightarrow> pyerror + npfloat list" where
  "getFluxerr obs num =
     map_r (\<lambda>ok. case map_of (columns (data obs)) (ok @ ''_err'') of
                   None \<Rightarrow> Inl KeyError
                 | Some c \<Rightarrow> py_item c num)
       (obs_filters obs)"

section \<open>The columns of the table\<close>

text \<open>
  The six columns a pass of the loop writes for a filter, in the order in which it writes
  them, and the columns of all the filters of a grid. \<open>mag_ok\<close>: in a table, the two
  magnitude columns of a band are \<open>vega_mag\<close> of its two rate columns.
\<close>

definition filter_colnames :: "string \<Rightarrow> string list" where
  "filter_colnames filt =
     [band_name filt @ ''_FLUX'', band_name filt @ ''_RATE'', band_name filt @ ''_VEGA'',
      band_name filt @ ''_INPUT_FLUX'', band_name filt @ ''_INPUT_RATE'',
      band_name filt @ ''_INPUT_VEGA'']"

definition photometry_colnames :: "sedgrid \<Rightarrow> string list" where
  "photometry_colnames g = concat (map filter_colnames (filters g))"

definition mag_ok :: "table \<Rightarrow> string \<Rightarrow> bool" where
  "mag_ok ot b \<longleftrightarrow>
     (\<exists>rate input_rate.
        map_of ot (b @ ''_RATE'') = Some rate \<and>
        map_of ot (b @ ''_VEGA'') = Some (vega_mag rate) \<and>
        map_of ot (b @ ''_INPUT_RATE'') = Some input_rate \<and>
        map_of ot (b @ ''_INPUT_VEGA'') = Some (vega_mag input_rate))"

section \<open>A run of the generator\<close>

text \<open>
  A small grid of two models in two filters, its noise model, and a deterministic stand-in
  for the random generator, to run the definitions on.
\<close>

fun demo_draw :: "nat \<Rightarrow> nat \<Rightarrow> nat \<Rightarrow> nat list" where
  "demo_draw n r 0 = []"
| "demo_draw n r (Suc k) = (r mod n) # demo_draw n (Suc r) k"

definition demo_env :: "nat env" where
  "demo_env = \<lparr>
     np_seed = (\<lambda>s r. case s of
                         None \<Rightarrow> Inr (Suc r)
                       | Some n \<Rightarrow> if 0 \<le> n then Inr (nat n) else Inl ValueError),
     np_choice = (\<lambda>n size p r. if valid_p n p then Inr (demo_draw n r size, r + size)
                                else Inl ValueError),
     np_normal = (\<lambda>loc scale r.
                    if length loc = length scale \<and> list_all (\<lambda>s. \<not> flt s (Fin 0)) scale
                    then Inr (map2 (\<lambda>l s. if s = Fin 0 then l
                                            else fadd l (fmul s (Fin (- 1)))) loc scale,
                              Suc r)
                    else Inl ValueError),
     vega_getFlux = (\<lambda>fname fs.
                       Inr (map (\<lambda>f. if band_name f = ''F475W'' then Fin 2 else Fin (1 / 10))
                              fs))\<rparr>"

definition demo_grid :: sedgrid where
  "demo_grid = \<lparr>
     seds = [[Fin 20, Fin 1], [Fin 2, Fin (- 3)]],
     filters = [''HST_WFC3_F475W'', ''HST_ACS_WFC_f814w''],
     cols = [(''weight'', [Fin 1, Fin 3]), (''Av'', [Fin 0.5, Fin 1.5])]\<rparr>"

definition demo_noise :: noisemodel where
  "demo_noise = \<lparr>
     bias = [[Fin 0, Fin 0], [Fin 18, Fin 0]],
     error = [[Fin 0, Fin (- 1)], [Fin 0, Fin 2]],
     completeness = [[Fin 0.5, Fin 1], [Fin 1, Fin 0.25]]\<rparr>"

definition demo_world :: "nat world" where
  "demo_world = \<lparr>rng = 0, stdout = []\<rparr>"

definition demo_table :: table where
  "demo_table =
     [(''F475W_FLUX'', [Fin 20, Fin 20]),
      (''F475W_RATE'', [Fin 10, Fin 10]),
      (''F475W_VEGA'', [Fin (- 2.5), Fin (- 2.5)]),
      (''F475W_INPUT_FLUX'', [Fin 2, Fin 20]),
      (''F475W_INPUT_RATE'', [Fin 1, Fin 10]),
      (''F475W_INPUT_VEGA'', [Fin 0, Fin (- 2.5)]),
      (''F814W_FLUX'', [Fin (- 5), Fin 0]),
      (''F814W_RATE'', [Fin (- 50), Fin 0]),
      (''F814W_VEGA'', [Fin (- 99.999), Fin (- 99.999)]),
      (''F814W_INPUT_FLUX'', [Fin (- 3), Fin 1]),
      (''F814W_INPUT_RATE'', [Fin (- 30), Fin 10]),
      (''F814W_INPUT_VEGA'', [Fin (- 99.999), Fin (- 2.5)]),
      (''weight'', [Fin 3, Fin 1]),
      (''Av'', [Fin 1.5, Fin 0.5])]"

definition demo_stdout :: "out list" where
  "demo_stdout =
     [OutPair (Fin 1) (Fin 1),
      OutStr ''HST_WFC3_F475W'', OutArr [Fin 2, Fin 20], OutArr [Fin 18, Fin 0],
      OutArr [Fin 0, Fin 0], OutArr [Fin 1, Fin 1],
      OutStr ''HST_ACS_WFC_f814w'', OutArr [Fin (- 3), Fin 1], OutArr [Fin 0, Fin 0],
      OutArr [Fin 2, Fin 1], OutArr [Fin 1, Fin 1]]"

text \<open>
  A catalog of two records whose columns carry the names of the catalog, not the filter
  identifiers of the program.
\<close>

definition demo_obs :: observations where
  "demo_obs = \<lparr>
     obs_filters = [''HST_WFC3_F475W''],
     filter_aliases = [(''HST_WFC3_F475W'', ''f475w'')],
     data = \<lparr>nrows = 2,
              columns = [(''f475w'', [Fin 1, Fin 2]), (''f475w_err'', [Fin 0.1, Fin 0.2])]\<rparr>,
     obs_vega_flux = Some [Fin 3]\<rparr>"

text \<open>The small grid with every weight zero.\<close>

definition demo_zero_grid :: sedgrid where
  "demo_zero_grid = demo_grid\<lparr>cols := [(''weight'', [Fin 0, Fin 0])]\<rparr>"

section \<open>Basic facts\<close>

lemma split_sep_nonempty: "split_sep sep s \<noteq> []"
  by (induction s) (auto split: list.splits)

lemma split_sep_no_sep: "sep \<notin> set s \<Longrightarrow> split_sep sep s = [s]"
  by (induction s) auto

lemma split_sep_append: "split_sep sep (a @ sep # b) = split_sep sep a @ split_sep sep b"
proof (induction a)
  case Nil
  show ?case by simp
next
  case (Cons c a)
  obtain w ws where sp: "split_sep sep a = w # ws"
    using split_sep_nonempty [of sep a] by (cases "split_sep sep a") auto
  with Cons show ?case by simp
qed

lemma last_split_sep:
  "sep \<notin> set b \<Longrightarrow> last (split_sep sep (a @ sep # b)) = b"
  by (simp add: split_sep_append split_sep_no_sep)

subsection \<open>Computations\<close>

lemma lift_apply: "lift x w = (x, w)"
  by (simp add: lift_def)

lemma print_c_apply: "print_c x w = (Inr (), w\<lparr>stdout := stdout w @ [x]\<rparr>)"
  by (simp add: print_c_def)

lemma bind_c_Inr:
  "bind_c m f w = (Inr b, w') \<longleftrightarrow> (\<exists>a w1. m w = (Inr a, w1) \<and> f a w1 = (Inr b, w'))"
  by (auto simp: bind_c_def split: prod.splits sum.splits)

lemma bind_c_step: "m w = (Inr a, w1) \<Longrightarrow> bind_c m f w = f a w1"
  by (simp add: bind_c_def)

lemma bind_c_fail: "m w = (Inl e, w1) \<Longrightarrow> bind_c m f w = (Inl e, w1)"
  by (simp add: bind_c_def)

lemma rng_c_Inr:
  "rng_c f w = (Inr a, w') \<longleftrightarrow> (\<exists>r. f (rng w) = Inr (a, r) \<and> w' = w\<lparr>rng := r\<rparr>)"
  by (auto simp: rng_c_def split: sum.splits prod.splits)

subsection \<open>Masks and magnitudes\<close>

lemma mask_set_map:
  "mask_set xs (map P xs) (map g (mask_get xs (map P xs))) =
     map (\<lambda>x. if P x then g x else x) xs"
  by (induction xs) auto

lemma mask_fill_map:
  "mask_fill (map h xs) (map Q xs) v = map (\<lambda>x. if Q x then v else h x) xs"
  by (induction xs) auto

lemma fgt_fle_exclusive: "fgt r (Fin 0) \<Longrightarrow> \<not> fle r (Fin 0)"
  by (cases r) (auto simp: fgt_def)

lemma vega_mag_map:
  "vega_mag rate =
     map (\<lambda>r. if fgt r (Fin 0) then fmul (Fin (- 2.5)) (flog10 r)
               else if fle r (Fin 0) then Fin (- 99.999) else r) rate"
  unfolding vega_mag_def Let_def mask_set_map mask_fill_map
  by (auto dest: fgt_fle_exclusive)


subsection \<open>Tables\<close>

lemma get_col_set_col:
  "get_col (set_col ot name c) name' = (if name' = name then Inr c else get_col ot name')"
  by (simp add: get_col_def set_col_def update_conv')

lemma colnames_set_col:
  "colnames (set_col ot name c) =
     (if name \<in> set (colnames ot) then colnames ot else colnames ot @ [name])"
  by (simp add: colnames_def set_col_def update_keys)

lemma add_photometry_eq:
  "add_photometry ot fluxname colname magname flux vega =
     Inr (set_col (set_col (set_col ot fluxname flux) colname (map (\<lambda>x. fdiv x vega) flux))
            magname (vega_mag (map (\<lambda>x. fdiv x vega) flux)))"
  by (simp add: add_photometry_def get_col_set_col Let_def)

subsection \<open>One pass of the loop over the filters\<close>

lemma sim_filter_Inr:
  assumes "sim_filter E flux model_bias model_unc model_compl sim_indx vega_flux k filt ot w
             = (Inr ot', w')"
  shows "\<exists>f b s u c x r vega ot1.
      np_take2 flux sim_indx k = Inr f \<and> np_take2 model_bias sim_indx k = Inr b \<and>
      np_binop fadd f b = Inr s \<and>
      np_take2 model_unc sim_indx k = Inr u \<and> np_take model_compl sim_indx = Inr c \<and>
      np_normal E s u (rng w) = Inr (x, r) \<and> py_nth vega_flux k = Inr vega \<and>
      add_photometry ot (band_name filt @ ''_FLUX'') (band_name filt @ ''_RATE'')
        (band_name filt @ ''_VEGA'') x vega = Inr ot1 \<and>
      add_photometry ot1 (band_name filt @ ''_INPUT_FLUX'') (band_name filt @ ''_INPUT_RATE'')
        (band_name filt @ ''_INPUT_VEGA'') f vega = Inr ot' \<and>
      w' = \<lparr>rng = r,
            stdout = stdout w @ [OutStr filt, OutArr f, OutArr b, OutArr u, OutArr c]\<rparr>"
  using assms unfolding sim_filter_def
  by (auto simp: bind_c_Inr lift_apply print_c_apply rng_c_Inr)

subsection \<open>Lists\<close>

lemma map_r_Inr:
  "map_r f xs = Inr ys \<longleftrightarrow>
     length ys = length xs \<and> (\<forall>i<length xs. f (xs ! i) = Inr (ys ! i))"
proof (induction xs arbitrary: ys)
  case Nil
  show ?case by auto
next
  case (Cons x xs)
  show ?case
  proof (cases ys)
    case Nil
    then show ?thesis by (auto split: sum.splits)
  next
    case (Cons y ys')
    then show ?thesis
      using Cons.IH [of ys'] by (auto split: sum.splits simp: less_Suc_eq_0_disj)
  qed
qed

lemma map_r_total:
  "(\<And>x. x \<in> set xs \<Longrightarrow> \<exists>y. f x = Inr y) \<Longrightarrow> \<exists>ys. map_r f xs = Inr ys"
proof (induction xs)
  case Nil
  show ?case by simp
next
  case (Cons x xs)
  then obtain y ys where "f x = Inr y" "map_r f xs = Inr ys"
    by (metis list.set_intros(1) list.set_intros(2))
  then show ?case by simp
qed

lemma map_r_Inl:
  "map_r f xs = Inl e \<Longrightarrow> \<exists>x\<in>set xs. f x = Inl e"
  by (induction xs) (auto split: sum.splits)

lemma py_index_first:
  "x \<in> set xs \<Longrightarrow>
     \<exists>k<length xs. py_index xs x = Inr k \<and> xs ! k = x \<and> (\<forall>j<k. xs ! j \<noteq> x)"
proof (induction xs)
  case Nil
  then show ?case by simp
next
  case (Cons y ys)
  show ?case
  proof (cases "y = x")
    case True
    then show ?thesis by auto
  next
    case False
    with Cons obtain k where k: "k < length ys" "py_index ys x = Inr k" "ys ! k = x"
      "\<forall>j<k. ys ! j \<noteq> x"
      by auto
    with False have "Suc k < length (y # ys) \<and> py_index (y # ys) x = Inr (Suc k) \<and>
        (y # ys) ! Suc k = x \<and> (\<forall>j<Suc k. (y # ys) ! j \<noteq> x)"
      by (auto simp: less_Suc_eq_0_disj)
    then show ?thesis by blast
  qed
qed

lemma join_contains: "t \<in> set xs \<Longrightarrow> \<exists>a b. join sep xs = a @ t @ b"
proof (induction sep xs rule: join.induct)
  case (1 sep)
  then show ?case by simp
next
  case (2 sep x)
  then have "join sep [x] = [] @ t @ []" by simp
  then show ?case by blast
next
  case (3 sep x y ys)
  show ?case
  proof (cases "t = x")
    case True
    then have "join sep (x # y # ys) = [] @ t @ (sep @ join sep (y # ys))" by simp
    then show ?thesis by blast
  next
    case False
    with 3 obtain a b where "join sep (y # ys) = a @ t @ b" by auto
    then have "join sep (x # y # ys) = (x @ sep @ a) @ t @ b" by simp
    then show ?thesis by blast
  qed
qed

subsection \<open>Maxima\<close>

lemma fmax_cases: "x \<noteq> NaN \<Longrightarrow> y \<noteq> NaN \<Longrightarrow> fmax x y = (if flt x y then y else x)"
  by (cases x; cases y) auto

lemma fle_refl: "x \<noteq> NaN \<Longrightarrow> fle x x"
  by (cases x) auto

lemma fle_trans: "fle x y \<Longrightarrow> fle y z \<Longrightarrow> fle x z"
  by (cases x; cases y; cases z) auto

lemma flt_fle: "flt x y \<Longrightarrow> fle x y"
  by (cases x; cases y) auto

lemma not_flt_fle: "x \<noteq> NaN \<Longrightarrow> y \<noteq> NaN \<Longrightarrow> \<not> flt x y \<Longrightarrow> fle y x"
  by (cases x; cases y) auto

lemma foldl_fmax:
  "m \<noteq> NaN \<Longrightarrow> NaN \<notin> set xs \<Longrightarrow>
     foldl fmax m xs \<in> set (m # xs) \<and> foldl fmax m xs \<noteq> NaN \<and>
     (\<forall>y\<in>set (m # xs). fle y (foldl fmax m xs))"
proof (induction xs arbitrary: m)
  case Nil
  then show ?case by (simp add: fle_refl)
next
  case (Cons x xs)
  let ?m = "fmax m x"
  from Cons.prems have xm: "x \<noteq> NaN" "m \<noteq> NaN" by auto
  then have m: "?m = (if flt m x then x else m)" "?m \<noteq> NaN"
    by (simp_all add: fmax_cases)
  from Cons.prems have le: "fle m ?m" "fle x ?m"
    by (auto simp: m fle_refl flt_fle not_flt_fle)
  from Cons.IH [of ?m] m Cons.prems have ih:
    "foldl fmax ?m xs \<in> set (?m # xs)" "foldl fmax ?m xs \<noteq> NaN"
    "\<forall>y\<in>set (?m # xs). fle y (foldl fmax ?m xs)"
    by auto
  from ih(3) have "fle ?m (foldl fmax ?m xs)" by simp
  with le have "fle m (foldl fmax ?m xs)" "fle x (foldl fmax ?m xs)"
    by (blast intro: fle_trans)+
  with ih m show ?case by (auto split: if_splits)
qed

lemma np_max_is_maximum:
  "row \<noteq> [] \<Longrightarrow> NaN \<notin> set row \<Longrightarrow>
     \<exists>m. np_max row = Inr m \<and> m \<in> set row \<and> (\<forall>y\<in>set row. fle y m)"
proof -
  assume "row \<noteq> []" and nan: "NaN \<notin> set row"
  then obtain x xs where row: "row = x # xs" by (cases row) auto
  with nan have "x \<noteq> NaN" "NaN \<notin> set xs" by auto
  from foldl_fmax [OF this] row show ?thesis by simp
qed

subsection \<open>Band tokens\<close>

lemma band_name_suffix: "CHR ''_'' \<notin> set b \<Longrightarrow> band_name (a @ ''_'' @ b) = upper b"
  by (simp add: band_name_def last_split_sep)

lemma band_name_whole: "CHR ''_'' \<notin> set f \<Longrightarrow> band_name f = upper f"
  by (simp add: band_name_def split_sep_no_sep)

subsection \<open>The completeness of each model\<close>

lemma get_model_compl_max:
  "lower compl_filter = ''max'' \<Longrightarrow>
     get_model_compl g nm compl_filter w = (np_max_axis1 (completeness nm), w)"
  by (simp add: get_model_compl_def lift_apply)

lemma get_model_compl_absent:
  "lower compl_filter \<noteq> ''max'' \<Longrightarrow> upper compl_filter \<notin> set (short_filters g) \<Longrightarrow>
     get_model_compl g nm compl_filter w =
       (Inl (NotImplementedError (not_present_message compl_filter (short_filters g))), w)"
  by (simp add: get_model_compl_def lift_apply)

lemma get_model_compl_present:
  assumes "lower compl_filter \<noteq> ''max''" and "upper compl_filter \<in> set (short_filters g)"
  shows "\<exists>k<length (filters g).
      band_name (filters g ! k) = upper compl_filter \<and>
      (\<forall>j<k. band_name (filters g ! j) \<noteq> upper compl_filter) \<and>
      get_model_compl g nm compl_filter w =
        (np_col (completeness nm) k,
         w\<lparr>stdout := stdout w @ [OutStr (''Completeness from '' @ filters g ! k)]\<rparr>)"
proof -
  from py_index_first [OF assms(2)] obtain k where k:
    "k < length (short_filters g)" "py_index (short_filters g) (upper compl_filter) = Inr k"
    "short_filters g ! k = upper compl_filter"
    "\<forall>j<k. short_filters g ! j \<noteq> upper compl_filter"
    by blast
  from k(1) have kf: "k < length (filters g)" by (simp add: short_filters_def)
  with k(3,4) have "band_name (filters g ! k) = upper compl_filter"
    "\<forall>j<k. band_name (filters g ! j) \<noteq> upper compl_filter"
    by (auto simp: short_filters_def)
  moreover from assms k(2) kf have "get_model_compl g nm compl_filter w =
        (np_col (completeness nm) k,
         w\<lparr>stdout := stdout w @ [OutStr (''Completeness from '' @ filters g ! k)]\<rparr>)"
    by (simp add: get_model_compl_def bind_c_def lift_apply print_c_apply py_nth_def)
  ultimately show ?thesis using kf by blast
qed

lemma gen_fails_with_get_model_compl:
  "get_model_compl g nm compl_filter w = (Inl e, w1) \<Longrightarrow>
     gen_SimObs_from_sedgrid E g nm nsim compl_filter ranseed vega_fname weight_to_use w
       = (Inl e, w1)"
  by (simp add: gen_SimObs_from_sedgrid_def gen_SimObs_indexed_def Let_def bind_c_fail)

lemma np_col_eq:
  "list_all (\<lambda>row. k < length row) a \<Longrightarrow> np_col a k = Inr (map (\<lambda>row. row ! k) a)"
  by (simp add: np_col_def map_r_Inr py_nth_def list_all_length)

lemma np_max_axis1_maxima:
  assumes "list_all (\<lambda>row. row \<noteq> [] \<and> NaN \<notin> set row) a"
  shows "\<exists>mc. np_max_axis1 a = Inr mc \<and> length mc = length a \<and>
           (\<forall>i<length mc. mc ! i \<in> set (a ! i) \<and> (\<forall>y\<in>set (a ! i). fle y (mc ! i)))"
proof -
  have "\<exists>m. np_max row = Inr m" if "row \<in> set a" for row
  proof -
    from assms that have "row \<noteq> []" "NaN \<notin> set row"
      by (auto simp: list_all_iff)
    from np_max_is_maximum [OF this] show ?thesis by blast
  qed
  from map_r_total [of a np_max, OF this] obtain mc where mc: "map_r np_max a = Inr mc"
    by blast
  then have len: "length mc = length a" and each: "\<forall>i<length a. np_max (a ! i) = Inr (mc ! i)"
    by (simp_all add: map_r_Inr)
  have "mc ! i \<in> set (a ! i) \<and> (\<forall>y\<in>set (a ! i). fle y (mc ! i))" if "i < length a" for i
  proof -
    from assms that have "a ! i \<noteq> []" "NaN \<notin> set (a ! i)"
      by (auto simp: list_all_length)
    from np_max_is_maximum [OF this] each that show ?thesis by auto
  qed
  with mc len show ?thesis by (auto simp: np_max_axis1_def)
qed

subsection \<open>The catalog\<close>

lemma getFluxerr_Inr:
  "getFluxerr obs num = Inr errs \<longleftrightarrow>
     length errs = length (obs_filters obs) \<and>
     (\<forall>i<length (obs_filters obs).
        \<exists>c. map_of (columns (data obs)) (obs_filters obs ! i @ ''_err'') = Some c \<and>
            py_item c num = Inr (errs ! i))"
  by (auto simp: getFluxerr_def map_r_Inr split: option.splits)

lemma getFluxerr_missing:
  assumes "obs_filters obs \<noteq> []"
    and "list_all (\<lambda>ok. map_of (columns (data obs)) (ok @ ''_err'') = None) (obs_filters obs)"
  shows "getFluxerr obs num = Inl KeyError"
proof -
  from assms(1) obtain ok oks where "obs_filters obs = ok # oks"
    by (cases "obs_filters obs") auto
  with assms(2) show ?thesis by (simp add: getFluxerr_def)
qed

lemma getFlux_aliased:
  assumes vega: "obs_vega_flux obs = Some vega" "length vega = length (obs_filters obs)"
    and row: "table_row (data obs) num = Inr d"
    and cols: "list_all (\<lambda>ok. \<exists>alias c. map_of (filter_aliases obs) ok = Some alias \<and>
                  map_of (columns (data obs)) alias = Some c \<and> d < length c) (obs_filters obs)"
  shows "\<exists>flux. getFlux obs num False = Inr flux \<and> length flux = length (obs_filters obs) \<and>
     (\<forall>i<length flux. \<exists>alias c.
        map_of (filter_aliases obs) (obs_filters obs ! i) = Some alias \<and>
        map_of (columns (data obs)) alias = Some c \<and> flux ! i = fmul (c ! d) (vega ! i))"
proof -
  let ?read = "\<lambda>ok. case map_of (filter_aliases obs) ok of
                       None \<Rightarrow> Inl KeyError
                     | Some alias \<Rightarrow> row_item (data obs) d alias"
  have "\<exists>y. ?read ok = Inr y" if "ok \<in> set (obs_filters obs)" for ok
    using cols that by (auto simp: list_all_iff row_item_def py_nth_def)
  from map_r_total [of "obs_filters obs" ?read, OF this] obtain vals where
    vals: "map_r ?read (obs_filters obs) = Inr vals"
    by blast
  then have len: "length vals = length (obs_filters obs)"
    and each: "\<forall>i<length (obs_filters obs). ?read (obs_filters obs ! i) = Inr (vals ! i)"
    by (simp_all add: map_r_Inr)
  from vega row vals len have fl: "getFlux obs num False = Inr (map2 fmul vals vega)"
    by (simp add: getFlux_def np_binop_def)
  have "\<exists>alias c. map_of (filter_aliases obs) (obs_filters obs ! i) = Some alias \<and>
        map_of (columns (data obs)) alias = Some c \<and>
        map2 fmul vals vega ! i = fmul (c ! d) (vega ! i)"
    if "i < length (obs_filters obs)" for i
  proof -
    from cols that obtain al c where ac:
      "map_of (filter_aliases obs) (obs_filters obs ! i) = Some al"
      "map_of (columns (data obs)) al = Some c" "d < length c"
      by (auto simp: list_all_length)
    with each that have "vals ! i = c ! d"
      by (auto simp: row_item_def py_nth_def)
    with ac that len vega(2) show ?thesis by auto
  qed
  with fl len vega(2) show ?thesis by auto
qed

subsection \<open>The range of the doubles\<close>

lemma overflow_threshold_large: "2 ^ 1023 \<le> overflow_threshold"
proof -
  have "(2::real) ^ 970 \<le> 2 ^ 1023" by (rule power_increasing) simp_all
  moreover have "(2::real) ^ 1024 = 2 * 2 ^ 1023" by simp
  ultimately show ?thesis unfolding overflow_threshold_def by linarith
qed

lemma overflow_small: "\<bar>x\<bar> \<le> 2 ^ 20 \<Longrightarrow> overflow x = Fin x"
proof -
  assume a: "\<bar>x\<bar> \<le> 2 ^ 20"
  have "(2::real) ^ 20 < 2 ^ 1023" by (rule power_strict_increasing) simp_all
  with a overflow_threshold_large have "\<bar>x\<bar> < overflow_threshold" by linarith
  then show ?thesis by (auto simp: overflow_def)
qed

lemma underflow_threshold_small: "underflow_threshold < 1 / 2 ^ 20"
proof -
  have "(2::real) ^ 20 < 2 ^ 1075" by (rule power_strict_increasing) simp_all
  then show ?thesis
    unfolding underflow_threshold_def by (simp add: frac_less2)
qed

lemma in_range_zero: "in_range 0 = Fin 0"
  by (simp add: in_range_def underflow_threshold_def)

lemma in_range_small: "1 / 2 ^ 20 \<le> \<bar>x\<bar> \<Longrightarrow> \<bar>x\<bar> \<le> 2 ^ 20 \<Longrightarrow> in_range x = Fin x"
  using underflow_threshold_small by (simp add: in_range_def overflow_small)

lemma overflow_Fin: "overflow x = Fin t \<Longrightarrow> t = x"
  by (auto simp: overflow_def split: if_splits)

lemma in_range_Fin:
  "in_range x = Fin q \<Longrightarrow> q = x \<or> (q = 0 \<and> \<bar>x\<bar> \<le> underflow_threshold)"
  by (auto simp: in_range_def dest: overflow_Fin split: if_splits)

subsection \<open>Sums and the normalisation\<close>

lemma fadd_Fin: "fadd a x = Fin t \<Longrightarrow> \<exists>r s. a = Fin r \<and> x = Fin s \<and> t = r + s"
  by (cases a; cases x) (auto dest: overflow_Fin)

lemma foldl_fadd_finite:
  "foldl fadd a xs = Fin t \<Longrightarrow> \<exists>r rs. a = Fin r \<and> xs = map Fin rs \<and> t = r + sum_list rs"
proof (induction xs arbitrary: a)
  case Nil
  then show ?case by simp
next
  case (Cons x xs)
  from Cons.IH [of "fadd a x"] Cons.prems obtain q rs where
    q: "fadd a x = Fin q" "xs = map Fin rs" "t = q + sum_list rs"
    by auto
  from fadd_Fin [OF q(1)] obtain r s where "a = Fin r" "x = Fin s" "q = r + s"
    by blast
  with q have "a = Fin r \<and> x # xs = map Fin (s # rs) \<and> t = r + sum_list (s # rs)"
    by simp
  then show ?case by (intro exI)
qed

lemma np_sum_finite: "np_sum xs = Fin t \<Longrightarrow> \<exists>rs. xs = map Fin rs \<and> t = sum_list rs"
  using foldl_fadd_finite [of "Fin 0" xs t] by (auto simp: np_sum_def)

lemma fdiv_Fin:
  "fdiv x s = Fin q \<Longrightarrow>
     \<exists>r. x = Fin r \<and>
       ((\<exists>t. s = Fin t \<and> t \<noteq> 0 \<and> (q = r / t \<or> (q = 0 \<and> \<bar>r / t\<bar> \<le> underflow_threshold))) \<or>
        ((s = PInf \<or> s = NInf) \<and> q = 0))"
  by (cases x; cases s) (auto dest: in_range_Fin split: if_splits)

lemma sum_list_divide: "sum_list (map (\<lambda>r. r / s) rs) = sum_list rs / (s::real)"
  by (induction rs) (auto simp: add_divide_distrib)

lemma sum_list_close:
  fixes xs ys :: "real list"
  assumes "length xs = length ys" and "\<forall>i<length xs. \<bar>xs ! i - ys ! i\<bar> \<le> e"
  shows "\<bar>sum_list xs - sum_list ys\<bar> \<le> real (length xs) * e"
  using assms
proof (induction xs ys rule: list_induct2)
  case Nil
  show ?case by simp
next
  case (Cons x xs y ys)
  from Cons.prems have "\<bar>x - y\<bar> \<le> e" by auto
  moreover from Cons.prems have "\<forall>i<length xs. \<bar>xs ! i - ys ! i\<bar> \<le> e" by auto
  with Cons.IH have "\<bar>sum_list xs - sum_list ys\<bar> \<le> real (length xs) * e" by simp
  ultimately show ?case by (simp add: algebra_simps)
qed

lemma valid_p_finite:
  assumes "valid_p n p"
  shows "\<exists>ps. p = map Fin ps \<and> n \<noteq> 0 \<and> length ps = n \<and> (\<forall>x\<in>set ps. 0 \<le> x) \<and>
           np_sum p = Fin (sum_list ps) \<and> \<bar>sum_list ps - 1\<bar> \<le> 1 / 2 ^ 26"
proof -
  from assms have n: "n \<noteq> 0" "length p = n" and nan: "np_sum p \<noteq> NaN"
    and neg: "\<forall>x\<in>set p. \<not> flt x (Fin 0)"
    and tol: "\<not> fgt (fabs (fadd (np_sum p) (Fin (- 1)))) (Fin (1 / 2 ^ 26))"
    by (auto simp: valid_p_def list_all_iff)
  from nan tol obtain t where t: "np_sum p = Fin t"
    by (cases "np_sum p") (auto simp: fgt_def)
  from np_sum_finite [OF t] obtain ps where ps: "p = map Fin ps" "t = sum_list ps"
    by blast
  from neg ps have "\<forall>x\<in>set ps. 0 \<le> x" by auto
  moreover have "\<bar>t - 1\<bar> \<le> 1 / 2 ^ 26"
  proof (cases "overflow (t + - 1)")
    case (Fin d)
    then have "d = t + - 1" by (rule overflow_Fin)
    with tol t Fin show ?thesis by (simp add: fgt_def)
  next
    case PInf
    with tol t show ?thesis by (simp add: fgt_def)
  next
    case NInf
    with tol t show ?thesis by (simp add: fgt_def)
  next
    case NaN
    then show ?thesis by (simp add: overflow_def split: if_splits)
  qed
  ultimately show ?thesis using n ps t by auto
qed

lemma normalise_valid:
  assumes "valid_p n (normalise raw)"
  shows "\<exists>rs qs. raw = map Fin rs \<and> length rs = n \<and> sum_list rs \<noteq> 0 \<and>
           np_sum raw = Fin (sum_list rs) \<and>
           normalise raw = map Fin qs \<and> length qs = n \<and>
           (\<forall>i<n. 0 \<le> qs ! i \<and>
              (qs ! i = rs ! i / sum_list rs \<or>
               (qs ! i = 0 \<and> \<bar>rs ! i / sum_list rs\<bar> \<le> underflow_threshold))) \<and>
           np_sum (normalise raw) = Fin (sum_list qs) \<and>
           \<bar>sum_list qs - 1\<bar> \<le> 1 / 2 ^ 26 \<and>
           \<bar>sum_list qs - 1\<bar> \<le> real n * underflow_threshold"
proof -
  from valid_p_finite [OF assms] obtain qs where qs:
    "normalise raw = map Fin qs" "n \<noteq> 0" "length qs = n" "\<forall>x\<in>set qs. 0 \<le> x"
    "np_sum (normalise raw) = Fin (sum_list qs)" "\<bar>sum_list qs - 1\<bar> \<le> 1 / 2 ^ 26"
    by blast
  from qs(1,3) have len: "length raw = n"
    by (metis length_map normalise_def)
  have entry: "fdiv (raw ! i) (np_sum raw) = Fin (qs ! i)" if "i < n" for i
  proof -
    from that len have "normalise raw ! i = fdiv (raw ! i) (np_sum raw)"
      by (simp add: normalise_def)
    with qs(1,3) that show ?thesis by simp
  qed
  from qs(2) have i0: "0 < n" by simp
  obtain s where s: "np_sum raw = Fin s" "s \<noteq> 0"
  proof (cases "np_sum raw")
    case (Fin t)
    from fdiv_Fin [OF entry [OF i0]] Fin have "t \<noteq> 0" by auto
    with Fin that show ?thesis by blast
  next
    case PInf
    have "qs ! i = 0" if "i < n" for i
      using fdiv_Fin [OF entry [OF that]] PInf by auto
    with qs(3) have "qs = replicate n 0"
      by (auto intro: nth_equalityI)
    with qs(6) show ?thesis by (simp add: sum_list_replicate)
  next
    case NInf
    have "qs ! i = 0" if "i < n" for i
      using fdiv_Fin [OF entry [OF that]] NInf by auto
    with qs(3) have "qs = replicate n 0"
      by (auto intro: nth_equalityI)
    with qs(6) show ?thesis by (simp add: sum_list_replicate)
  next
    case NaN
    from fdiv_Fin [OF entry [OF i0]] NaN show ?thesis by auto
  qed
  from np_sum_finite [OF s(1)] obtain rs where rs: "raw = map Fin rs" "s = sum_list rs"
    by blast
  with len have lrs: "length rs = n" by simp
  have each: "0 \<le> qs ! i \<and>
      (qs ! i = rs ! i / sum_list rs \<or>
       (qs ! i = 0 \<and> \<bar>rs ! i / sum_list rs\<bar> \<le> underflow_threshold))" if "i < n" for i
  proof -
    from that qs(3,4) have "0 \<le> qs ! i" by auto
    moreover from fdiv_Fin [OF entry [OF that]] rs s that lrs
    have "qs ! i = rs ! i / sum_list rs \<or>
       (qs ! i = 0 \<and> \<bar>rs ! i / sum_list rs\<bar> \<le> underflow_threshold)"
      by auto
    ultimately show ?thesis by simp
  qed
  have "\<bar>sum_list qs - sum_list (map (\<lambda>r. r / sum_list rs) rs)\<bar>
      \<le> real (length qs) * underflow_threshold"
  proof (rule sum_list_close)
    show "length qs = length (map (\<lambda>r. r / sum_list rs) rs)"
      using qs(3) lrs by simp
    show "\<forall>i<length qs. \<bar>qs ! i - map (\<lambda>r. r / sum_list rs) rs ! i\<bar> \<le> underflow_threshold"
    proof (intro allI impI)
      fix i
      assume "i < length qs"
      with qs(3) have i: "i < n" by simp
      have "0 \<le> underflow_threshold" by (simp add: underflow_threshold_def)
      with each [OF i] i lrs show "\<bar>qs ! i - map (\<lambda>r. r / sum_list rs) rs ! i\<bar>
          \<le> underflow_threshold"
        by auto
    qed
  qed
  moreover from s(2) rs(2) have "sum_list (map (\<lambda>r. r / sum_list rs) rs) = 1"
    by (simp add: sum_list_divide)
  ultimately have close: "\<bar>sum_list qs - 1\<bar> \<le> real n * underflow_threshold"
    using qs(3) by simp
  from rs s have "np_sum raw = Fin (sum_list rs)" "sum_list rs \<noteq> 0" by simp_all
  with rs(1) lrs qs(1,3,5,6) each close show ?thesis by blast
qed

lemma normalise_degenerate:
  "np_sum raw = Fin 0 \<or> np_sum raw = PInf \<or> np_sum raw = NInf \<or> np_sum raw = NaN \<Longrightarrow>
     \<not> valid_p n (normalise raw)"
  using normalise_valid [of n raw] by auto

lemma normalise_overflow:
  "np_sum [Fin (10 ^ 308), Fin (10 ^ 308)] = PInf \<and>
   normalise [Fin (10 ^ 308), Fin (10 ^ 308)] = [Fin 0, Fin 0]"
  by (simp add: np_sum_def normalise_def overflow_def overflow_threshold_def)

subsection \<open>The stages of the generator\<close>

lemma get_model_compl_rng: "get_model_compl g nm compl_filter w = (x, w1) \<Longrightarrow> rng w1 = rng w"
  by (auto simp: get_model_compl_def bind_c_def lift_def print_c_def
      split: if_splits sum.splits prod.splits)

lemma print_range_rng: "print_range model_compl w = (x, w1) \<Longrightarrow> rng w1 = rng w"
  by (auto simp: print_range_def bind_c_def lift_def print_c_def
      split: if_splits sum.splits prod.splits)

lemma get_gridweights_Inr:
  "get_gridweights g weight_to_use model_compl = Inr gw \<longleftrightarrow>
     (\<exists>wts raw. grid_col g weight_to_use = Inr wts \<and> np_binop fmul wts model_compl = Inr raw \<and>
        gw = normalise raw)"
  by (auto simp: get_gridweights_def raw_weights_def split: sum.splits)

lemma sample_indx_Inr:
  "sample_indx E n nsim p ranseed w = (Inr indx, w') \<longleftrightarrow>
     (\<exists>r0 r1. np_seed E ranseed (rng w) = Inr r0 \<and> np_choice E n nsim p r0 = Inr (indx, r1) \<and>
        w' = w\<lparr>rng := r1\<rparr>)"
  by (auto simp: sample_indx_def bind_c_def seed_c_def rng_c_def split: sum.splits prod.splits)

lemma gen_indexed_Inr:
  assumes "gen_SimObs_indexed E g nm nsim compl_filter ranseed vega_fname weight_to_use w
             = (Inr (sim_indx, ot), w')"
  shows "\<exists>model_compl w1 w2 gridweights r0 r1 vega ot1.
      get_model_compl g nm compl_filter w = (Inr model_compl, w1) \<and>
      print_range model_compl w1 = (Inr (), w2) \<and>
      get_gridweights g weight_to_use model_compl = Inr gridweights \<and>
      np_seed E ranseed (rng w) = Inr r0 \<and>
      np_choice E (length (seds g)) nsim gridweights r0 = Inr (sim_indx, r1) \<and>
      vega_getFlux E vega_fname (filters g) = Inr vega \<and>
      sim_filters E (seds g) (bias nm) (map (map fabs) (error nm)) model_compl sim_indx vega
        0 (filters g) [] (w2\<lparr>rng := r1\<rparr>) = (Inr ot1, w') \<and>
      sim_params g sim_indx (grid_keys g) ot1 = Inr ot"
proof -
  from assms obtain model_compl w1 w2 gridweights w3 vega ot1 where s:
    "get_model_compl g nm compl_filter w = (Inr model_compl, w1)"
    "print_range model_compl w1 = (Inr (), w2)"
    "get_gridweights g weight_to_use model_compl = Inr gridweights"
    "sample_indx E (length (seds g)) nsim gridweights ranseed w2 = (Inr sim_indx, w3)"
    "vega_getFlux E vega_fname (filters g) = Inr vega"
    "sim_filters E (seds g) (bias nm) (map (map fabs) (error nm)) model_compl sim_indx vega
        0 (filters g) [] w3 = (Inr ot1, w')"
    "sim_params g sim_indx (grid_keys g) ot1 = Inr ot"
    unfolding gen_SimObs_indexed_def Let_def
    by (auto simp: bind_c_Inr lift_apply)
  from s(1,2) have "rng w2 = rng w"
    by (simp add: get_model_compl_rng print_range_rng)
  with s(4) obtain r0 r1 where "np_seed E ranseed (rng w) = Inr r0"
    "np_choice E (length (seds g)) nsim gridweights r0 = Inr (sim_indx, r1)" "w3 = w2\<lparr>rng := r1\<rparr>"
    by (auto simp: sample_indx_Inr)
  with s show ?thesis by blast
qed

lemma get_model_compl_length:
  "get_model_compl g nm compl_filter w = (Inr model_compl, w1) \<Longrightarrow>
     length model_compl = length (completeness nm)"
  by (auto simp: get_model_compl_def bind_c_def lift_def print_c_def np_max_axis1_def
      np_col_def map_r_Inr split: if_splits sum.splits prod.splits)

lemma grid_col_length:
  "shapes_agree g nm \<Longrightarrow> grid_col g name = Inr c \<Longrightarrow> length c = length (seds g)"
  by (auto simp: shapes_agree_def grid_col_def list_all_iff split: option.splits
      dest!: map_of_SomeD)

subsection \<open>The random state\<close>

lemma no_rng_lift: "no_rng (lift x)"
  by (simp add: no_rng_def lift_def)

lemma no_rng_print: "no_rng (print_c x)"
  by (simp add: no_rng_def print_c_def)

lemma no_rng_by_rng: "no_rng m \<Longrightarrow> by_rng m"
  by (simp add: no_rng_def by_rng_def)

lemma bind_c_pair:
  "bind_c m f w = (case fst (m w) of Inl e \<Rightarrow> (Inl e, snd (m w)) | Inr a \<Rightarrow> f a (snd (m w)))"
  by (simp add: bind_c_def split: prod.splits sum.splits)

lemma by_rngD:
  "by_rng m \<Longrightarrow> rng w1 = rng w2 \<Longrightarrow>
     fst (m w1) = fst (m w2) \<and> rng (snd (m w1)) = rng (snd (m w2))"
  unfolding by_rng_def by blast

lemma no_rngD: "no_rng m \<Longrightarrow> fst (m w1) = fst (m w2) \<and> rng (snd (m w1)) = rng w1"
  unfolding no_rng_def by blast

lemma reseedsD:
  "reseeds m \<Longrightarrow> fst (m w1) = fst (m w2) \<and>
     (fst (m w1) = Inr a \<longrightarrow> rng (snd (m w1)) = rng (snd (m w2)))"
  unfolding reseeds_def by blast

lemma by_rng_bind:
  fixes m :: "('a, 'r) comp"
  assumes m: "by_rng m" and f: "\<And>a. by_rng (f a)"
  shows "by_rng (bind_c m f)"
  unfolding by_rng_def
proof (intro allI impI)
  fix w1 w2 :: "'r world"
  assume r: "rng w1 = rng w2"
  from by_rngD [OF m r] have eq: "fst (m w1) = fst (m w2)"
    and eq2: "rng (snd (m w1)) = rng (snd (m w2))"
    by blast+
  show "fst (bind_c m f w1) = fst (bind_c m f w2) \<and>
      rng (snd (bind_c m f w1)) = rng (snd (bind_c m f w2))"
  proof (cases "fst (m w2)")
    case (Inl e)
    then have "bind_c m f w2 = (Inl e, snd (m w2))" by (simp add: bind_c_pair)
    moreover from Inl eq have "bind_c m f w1 = (Inl e, snd (m w1))" by (simp add: bind_c_pair)
    ultimately show ?thesis using eq2 by simp
  next
    case (Inr a)
    then have "bind_c m f w2 = f a (snd (m w2))" by (simp add: bind_c_pair)
    moreover from Inr eq have "bind_c m f w1 = f a (snd (m w1))" by (simp add: bind_c_pair)
    ultimately show ?thesis using by_rngD [OF f [of a] eq2] by simp
  qed
qed

lemma no_rng_bind:
  fixes m :: "('a, 'r) comp"
  assumes m: "no_rng m" and f: "\<And>a. no_rng (f a)"
  shows "no_rng (bind_c m f)"
  unfolding no_rng_def
proof (intro conjI allI)
  fix w1 w2 :: "'r world"
  from no_rngD [OF m, of w1 w2] have eq: "fst (m w1) = fst (m w2)" by blast
  show "fst (bind_c m f w1) = fst (bind_c m f w2)"
  proof (cases "fst (m w2)")
    case (Inl e)
    then have "bind_c m f w2 = (Inl e, snd (m w2))" by (simp add: bind_c_pair)
    moreover from Inl eq have "bind_c m f w1 = (Inl e, snd (m w1))" by (simp add: bind_c_pair)
    ultimately show ?thesis by simp
  next
    case (Inr a)
    then have "bind_c m f w2 = f a (snd (m w2))" by (simp add: bind_c_pair)
    moreover from Inr eq have "bind_c m f w1 = f a (snd (m w1))" by (simp add: bind_c_pair)
    ultimately show ?thesis
      using no_rngD [OF f [of a], of "snd (m w1)" "snd (m w2)"] by simp
  qed
next
  fix w :: "'r world"
  from no_rngD [OF m, of w w] have r: "rng (snd (m w)) = rng w" by blast
  show "rng (snd (bind_c m f w)) = rng w"
  proof (cases "fst (m w)")
    case (Inl e)
    then have "bind_c m f w = (Inl e, snd (m w))" by (simp add: bind_c_pair)
    with r show ?thesis by simp
  next
    case (Inr a)
    then have "bind_c m f w = f a (snd (m w))" by (simp add: bind_c_pair)
    with r no_rngD [OF f [of a], of "snd (m w)" "snd (m w)"] show ?thesis by simp
  qed
qed

lemma reseeds_bind_no_rng:
  fixes m :: "('a, 'r) comp"
  assumes m: "no_rng m" and f: "\<And>a. reseeds (f a)"
  shows "reseeds (bind_c m f)"
  unfolding reseeds_def
proof (intro allI)
  fix w1 w2 :: "'r world"
  from no_rngD [OF m, of w1 w2] have eq: "fst (m w1) = fst (m w2)" by blast
  show "fst (bind_c m f w1) = fst (bind_c m f w2) \<and>
      (\<forall>b. fst (bind_c m f w1) = Inr b \<longrightarrow>
         rng (snd (bind_c m f w1)) = rng (snd (bind_c m f w2)))"
  proof (cases "fst (m w2)")
    case (Inl e)
    then have "bind_c m f w2 = (Inl e, snd (m w2))" by (simp add: bind_c_pair)
    moreover from Inl eq have "bind_c m f w1 = (Inl e, snd (m w1))" by (simp add: bind_c_pair)
    ultimately show ?thesis by simp
  next
    case (Inr a)
    then have "bind_c m f w2 = f a (snd (m w2))" by (simp add: bind_c_pair)
    moreover from Inr eq have "bind_c m f w1 = f a (snd (m w1))" by (simp add: bind_c_pair)
    ultimately show ?thesis
      using reseedsD [OF f [of a], of "snd (m w1)" "snd (m w2)"] by simp
  qed
qed

lemma reseeds_bind_by_rng:
  fixes m :: "('a, 'r) comp"
  assumes m: "reseeds m" and f: "\<And>a. by_rng (f a)"
  shows "reseeds (bind_c m f)"
  unfolding reseeds_def
proof (intro allI)
  fix w1 w2 :: "'r world"
  from reseedsD [OF m, of w1 w2] have eq: "fst (m w1) = fst (m w2)"
    and rs: "\<And>a. fst (m w1) = Inr a \<Longrightarrow> rng (snd (m w1)) = rng (snd (m w2))"
    by blast+
  show "fst (bind_c m f w1) = fst (bind_c m f w2) \<and>
      (\<forall>b. fst (bind_c m f w1) = Inr b \<longrightarrow>
         rng (snd (bind_c m f w1)) = rng (snd (bind_c m f w2)))"
  proof (cases "fst (m w2)")
    case (Inl e)
    then have "bind_c m f w2 = (Inl e, snd (m w2))" by (simp add: bind_c_pair)
    moreover from Inl eq have "bind_c m f w1 = (Inl e, snd (m w1))" by (simp add: bind_c_pair)
    ultimately show ?thesis by simp
  next
    case (Inr a)
    with eq rs [of a] have eq2: "rng (snd (m w1)) = rng (snd (m w2))" by simp
    from Inr have "bind_c m f w2 = f a (snd (m w2))" by (simp add: bind_c_pair)
    moreover from Inr eq have "bind_c m f w1 = f a (snd (m w1))" by (simp add: bind_c_pair)
    ultimately show ?thesis using by_rngD [OF f [of a] eq2] by simp
  qed
qed

lemma by_rng_rng_c: "by_rng (rng_c f)"
  unfolding by_rng_def rng_c_def
  by (auto split: sum.splits prod.splits)

lemma by_rng_lift: "by_rng (lift x)"
  by (simp add: no_rng_by_rng no_rng_lift)

lemma by_rng_print: "by_rng (print_c x)"
  by (simp add: no_rng_by_rng no_rng_print)

lemma reseeds_sample_indx:
  assumes "seed_resets E"
  shows "reseeds (sample_indx E n nsim p (Some seed))"
  unfolding reseeds_def
proof (intro allI)
  fix w1 w2 :: "'a world"
  from assms have s: "np_seed E (Some seed) (rng w1) = np_seed E (Some seed) (rng w2)"
    unfolding seed_resets_def by blast
  show "fst (sample_indx E n nsim p (Some seed) w1)
      = fst (sample_indx E n nsim p (Some seed) w2) \<and>
      (\<forall>a. fst (sample_indx E n nsim p (Some seed) w1) = Inr a \<longrightarrow>
         rng (snd (sample_indx E n nsim p (Some seed) w1))
         = rng (snd (sample_indx E n nsim p (Some seed) w2)))"
  proof (cases "np_seed E (Some seed) (rng w2)")
    case (Inl e)
    with s show ?thesis
      by (simp add: sample_indx_def bind_c_def seed_c_def)
  next
    case (Inr r0)
    with s show ?thesis
      by (cases "np_choice E n nsim p r0")
        (auto simp: sample_indx_def bind_c_def seed_c_def rng_c_def)
  qed
qed

lemma no_rng_get_model_compl: "no_rng (get_model_compl g nm compl_filter)"
proof (cases "lower compl_filter = ''max''")
  case True
  then show ?thesis by (simp add: get_model_compl_def no_rng_lift)
next
  case notmax: False
  show ?thesis
  proof (cases "upper compl_filter \<in> set (short_filters g)")
    case False
    with notmax show ?thesis
      by (simp add: get_model_compl_def no_rng_lift)
  next
    case True
    have "no_rng
       (bind_c (lift (py_index (short_filters g) (upper compl_filter))) (\<lambda>filter_k.
        bind_c (lift (py_nth (filters g) filter_k)) (\<lambda>fname.
        bind_c (print_c (OutStr (''Completeness from '' @ fname))) (\<lambda>_.
        lift (np_col (completeness nm) filter_k)))))"
      by (intro no_rng_bind no_rng_lift no_rng_print)
    with True notmax show ?thesis
      by (simp add: get_model_compl_def)
  qed
qed

lemma no_rng_print_range: "no_rng (print_range model_compl)"
  unfolding print_range_def
  by (intro no_rng_bind no_rng_lift no_rng_print)

lemma by_rng_sim_filter:
  "by_rng (sim_filter E flux model_bias model_unc model_compl sim_indx vega k filt ot)"
  unfolding sim_filter_def
  by (intro by_rng_bind by_rng_rng_c by_rng_lift by_rng_print)

lemma by_rng_sim_filters:
  "by_rng (sim_filters E flux model_bias model_unc model_compl sim_indx vega k fs ot)"
proof (induction fs arbitrary: k ot)
  case Nil
  show ?case by (simp add: by_rng_lift)
next
  case (Cons filt fs)
  show ?case by (simp add: by_rng_bind by_rng_sim_filter Cons)
qed

lemma reseeds_gen_indexed:
  assumes "seed_resets E"
  shows "reseeds (gen_SimObs_indexed E g nm nsim compl_filter (Some seed) vega_fname
           weight_to_use)"
  unfolding gen_SimObs_indexed_def Let_def
  by (intro reseeds_bind_no_rng no_rng_get_model_compl no_rng_print_range no_rng_lift
      reseeds_bind_by_rng reseeds_sample_indx [OF assms] by_rng_bind by_rng_lift
      by_rng_sim_filters)

subsection \<open>Index arrays\<close>

lemma np_take2_eq:
  "list_all (\<lambda>i. i < length a \<and> k < length (a ! i)) indx \<Longrightarrow>
     np_take2 a indx k = Inr (map (\<lambda>i. a ! i ! k) indx)"
  by (simp add: np_take2_def map_r_Inr py_nth_def list_all_length)

lemma np_take_eq:
  "list_all (\<lambda>i. i < length xs) indx \<Longrightarrow> np_take xs indx = Inr (map (\<lambda>i. xs ! i) indx)"
  by (simp add: np_take_def map_r_Inr py_nth_def list_all_length)

lemma fabs_not_negative: "\<not> flt (fabs x) (Fin 0)"
  by (cases x) auto


lemma map2_same_index: "map2 f (map g xs) (map h xs) = map (\<lambda>x. f (g x) (h x)) xs"
  by (induction xs) auto


lemma sim_filter_run:
  assumes f: "np_take2 flux sim_indx k = Inr f"
    and b: "np_take2 model_bias sim_indx k = Inr b"
    and s: "np_binop fadd f b = Inr s"
    and u: "np_take2 model_unc sim_indx k = Inr u"
    and c: "np_take model_compl sim_indx = Inr c"
    and x: "np_normal E s u (rng w) = Inr (x, r)"
    and v: "py_nth vega_flux k = Inr vega"
  shows "sim_filter E flux model_bias model_unc model_compl sim_indx vega_flux k filt ot w =
     (add_photometry
        (case add_photometry ot (band_name filt @ ''_FLUX'') (band_name filt @ ''_RATE'')
                (band_name filt @ ''_VEGA'') x vega of Inr ot1 \<Rightarrow> ot1 | Inl e \<Rightarrow> ot)
        (band_name filt @ ''_INPUT_FLUX'') (band_name filt @ ''_INPUT_RATE'')
        (band_name filt @ ''_INPUT_VEGA'') f vega,
      \<lparr>rng = r,
         stdout = stdout w @ [OutStr filt, OutArr f, OutArr b, OutArr u, OutArr c]\<rparr>)"
  unfolding sim_filter_def
  by (simp add: bind_c_def lift_def print_c_def rng_c_def f b s u c x v add_photometry_eq)

subsection \<open>Column names\<close>

lemma upper_char_underscore: "upper_char c = CHR ''_'' \<longleftrightarrow> c = CHR ''_''"
  by (simp add: upper_char_def split: if_splits)

lemma split_sep_pieces: "w \<in> set (split_sep sep s) \<Longrightarrow> sep \<notin> set w"
proof (induction s arbitrary: w)
  case Nil
  then show ?case by simp
next
  case (Cons c cs)
  obtain v vs where sp: "split_sep sep cs = v # vs"
    using split_sep_nonempty [of sep cs] by (cases "split_sep sep cs") auto
  with Cons show ?case by (auto split: if_splits)
qed

lemma band_name_no_underscore: "CHR ''_'' \<notin> set (band_name f)"
proof -
  have "last (split_sep CHR ''_'' f) \<in> set (split_sep CHR ''_'' f)"
    by (simp add: split_sep_nonempty)
  then have "CHR ''_'' \<notin> set (last (split_sep CHR ''_'' f))"
    by (rule split_sep_pieces)
  moreover have "CHR ''_'' \<in> set (map upper_char w) \<Longrightarrow> CHR ''_'' \<in> set w" for w
  proof -
    assume "CHR ''_'' \<in> set (map upper_char w)"
    then obtain x where "x \<in> set w" "upper_char x = CHR ''_''" by auto
    then show ?thesis by (simp add: upper_char_underscore)
  qed
  ultimately show ?thesis
    unfolding band_name_def upper_def by blast
qed

lemma append_sep_eq:
  assumes "c \<notin> set b" and "c \<notin> set b'" and "b @ c # t = b' @ c # t'"
  shows "b = b' \<and> t = t'"
proof -
  have tw: "takeWhile (\<lambda>x. x \<noteq> c) (a @ c # u) = a" if "c \<notin> set a" for a u
    using that by (induction a) auto
  from assms(1) have "takeWhile (\<lambda>x. x \<noteq> c) (b @ c # t) = b"
    by (rule tw)
  moreover from assms(2) have "takeWhile (\<lambda>x. x \<noteq> c) (b' @ c # t') = b'"
    by (rule tw)
  ultimately have "b = b'" using assms(3) by simp
  with assms(3) show ?thesis by simp
qed

lemma band_name_not_input: "band_name f' \<noteq> band_name f @ ''_INPUT''"
proof
  assume "band_name f' = band_name f @ ''_INPUT''"
  then have "CHR ''_'' \<in> set (band_name f')" by simp
  then show False by (simp add: band_name_no_underscore)
qed

lemma filter_colnames_distinct: "distinct (filter_colnames f)"
  by (simp add: filter_colnames_def)

lemma filter_colnames_disjoint:
  "band_name f \<noteq> band_name f' \<Longrightarrow> set (filter_colnames f) \<inter> set (filter_colnames f') = {}"
  using band_name_not_input [of f f'] band_name_not_input [of f' f]
  by (auto simp: filter_colnames_def)

lemma filter_colnames_same:
  "band_name f = band_name f' \<Longrightarrow> filter_colnames f = filter_colnames f'"
  by (simp add: filter_colnames_def)

subsection \<open>Columns of a table\<close>

lemma map_of_set_col: "map_of (set_col ot name c) = (map_of ot)(name \<mapsto> c)"
  by (simp add: set_col_def update_conv')

lemma get_col_map_of: "get_col ot name = Inr c \<longleftrightarrow> map_of ot name = Some c"
  by (simp add: get_col_def split: option.splits)

lemma set_col_lengths:
  "list_all (\<lambda>c. length (snd c) = n) ot \<Longrightarrow> length col = n \<Longrightarrow>
     list_all (\<lambda>c. length (snd c) = n) (set_col ot name col)"
  unfolding set_col_def by (induction ot) auto

lemma py_nth_Inr: "py_nth xs k = Inr y \<longleftrightarrow> k < length xs \<and> xs ! k = y"
  by (simp add: py_nth_def)

lemma take2_elem:
  "(case py_nth a i of Inl e \<Rightarrow> Inl e | Inr row \<Rightarrow> py_nth row k) = Inr y \<longleftrightarrow>
     i < length a \<and> k < length (a ! i) \<and> a ! i ! k = y"
  by (simp add: py_nth_def)

lemma np_take2_Inr:
  "np_take2 a indx k = Inr ys \<longleftrightarrow>
     length ys = length indx \<and>
     (\<forall>j<length indx. indx ! j < length a \<and> k < length (a ! (indx ! j)) \<and>
        a ! (indx ! j) ! k = ys ! j)"
  unfolding np_take2_def map_r_Inr take2_elem ..

lemma np_take_Inr:
  "np_take xs indx = Inr ys \<longleftrightarrow>
     length ys = length indx \<and> (\<forall>j<length indx. indx ! j < length xs \<and> xs ! (indx ! j) = ys ! j)"
  unfolding np_take_def map_r_Inr py_nth_Inr ..

lemma np_take2_map:
  assumes "np_take2 a indx k = Inr ys"
  shows "ys = map (\<lambda>i. a ! i ! k) indx"
proof (rule nth_equalityI)
  from assms show "length ys = length (map (\<lambda>i. a ! i ! k) indx)"
    by (simp add: np_take2_Inr)
next
  fix j
  assume "j < length ys"
  with assms show "ys ! j = map (\<lambda>i. a ! i ! k) indx ! j"
    by (simp add: np_take2_Inr)
qed

lemma np_take_map:
  assumes "np_take xs indx = Inr ys"
  shows "ys = map (\<lambda>i. xs ! i) indx"
proof (rule nth_equalityI)
  from assms show "length ys = length (map (\<lambda>i. xs ! i) indx)"
    by (simp add: np_take_Inr)
next
  fix j
  assume "j < length ys"
  with assms show "ys ! j = map (\<lambda>i. xs ! i) indx ! j"
    by (simp add: np_take_Inr)
qed

lemma set_colnames_set_col: "set (colnames (set_col ot name c)) = insert name (set (colnames ot))"
  by (auto simp: colnames_set_col)

lemma vega_mag_length: "length (vega_mag rate) = length rate"
  by (simp add: vega_mag_map)

lemma add_photometry_facts:
  assumes "add_photometry ot fluxname colname magname flux vega = Inr ot'"
    and "fluxname \<noteq> colname" "fluxname \<noteq> magname" "colname \<noteq> magname"
  shows "map_of ot' fluxname = Some flux"
    and "map_of ot' colname = Some (map (\<lambda>x. fdiv x vega) flux)"
    and "map_of ot' magname = Some (vega_mag (map (\<lambda>x. fdiv x vega) flux))"
    and "\<And>n. n \<noteq> fluxname \<Longrightarrow> n \<noteq> colname \<Longrightarrow> n \<noteq> magname \<Longrightarrow> map_of ot' n = map_of ot n"
    and "set (colnames ot') = set (colnames ot) \<union> {fluxname, colname, magname}"
    and "fluxname \<notin> set (colnames ot) \<Longrightarrow> colname \<notin> set (colnames ot) \<Longrightarrow>
         magname \<notin> set (colnames ot) \<Longrightarrow>
         colnames ot' = colnames ot @ [fluxname, colname, magname]"
    and "list_all (\<lambda>c. length (snd c) = length flux) ot \<Longrightarrow>
         list_all (\<lambda>c. length (snd c) = length flux) ot'"
proof -
  from assms(1) have ot': "ot' = set_col (set_col (set_col ot fluxname flux) colname
      (map (\<lambda>x. fdiv x vega) flux)) magname (vega_mag (map (\<lambda>x. fdiv x vega) flux))"
    by (simp add: add_photometry_eq)
  from assms(2-4) show "map_of ot' fluxname = Some flux"
    "map_of ot' colname = Some (map (\<lambda>x. fdiv x vega) flux)"
    "map_of ot' magname = Some (vega_mag (map (\<lambda>x. fdiv x vega) flux))"
    by (simp_all add: ot' map_of_set_col)
  show "\<And>n. n \<noteq> fluxname \<Longrightarrow> n \<noteq> colname \<Longrightarrow> n \<noteq> magname \<Longrightarrow> map_of ot' n = map_of ot n"
    by (simp add: ot' map_of_set_col)
  show "set (colnames ot') = set (colnames ot) \<union> {fluxname, colname, magname}"
    by (auto simp: ot' set_colnames_set_col)
  from assms(2-4) show "fluxname \<notin> set (colnames ot) \<Longrightarrow> colname \<notin> set (colnames ot) \<Longrightarrow>
         magname \<notin> set (colnames ot) \<Longrightarrow>
         colnames ot' = colnames ot @ [fluxname, colname, magname]"
    by (simp add: ot' colnames_set_col)
  show "list_all (\<lambda>c. length (snd c) = length flux) ot \<Longrightarrow>
         list_all (\<lambda>c. length (snd c) = length flux) ot'"
    unfolding ot' by (intro set_col_lengths) (simp_all add: vega_mag_length)
qed

subsection \<open>What a pass of the loop stores\<close>

lemma sim_filter_struct:
  assumes run: "sim_filter E flux model_bias model_unc model_compl sim_indx vega_flux k filt ot w
             = (Inr ot', w')"
  shows "\<exists>x.
      np_normal E (map (\<lambda>i. fadd (flux ! i ! k) (model_bias ! i ! k)) sim_indx)
        (map (\<lambda>i. model_unc ! i ! k) sim_indx) (rng w) = Inr (x, rng w') \<and>
      (\<forall>j<length sim_indx. sim_indx ! j < length model_unc \<and>
         k < length (model_unc ! (sim_indx ! j))) \<and>
      map_of ot' (band_name filt @ ''_FLUX'') = Some x \<and>
      map_of ot' (band_name filt @ ''_INPUT_FLUX'') = Some (map (\<lambda>i. flux ! i ! k) sim_indx) \<and>
      mag_ok ot' (band_name filt) \<and>
      (\<forall>n. n \<notin> set (filter_colnames filt) \<longrightarrow> map_of ot' n = map_of ot n) \<and>
      set (colnames ot') = set (colnames ot) \<union> set (filter_colnames filt) \<and>
      (set (filter_colnames filt) \<inter> set (colnames ot) = {} \<longrightarrow>
         colnames ot' = colnames ot @ filter_colnames filt) \<and>
      (length x = length sim_indx \<longrightarrow> list_all (\<lambda>c. length (snd c) = length sim_indx) ot \<longrightarrow>
         list_all (\<lambda>c. length (snd c) = length sim_indx) ot')"
proof -
  let ?b = "band_name filt"
  from sim_filter_Inr [OF run] obtain f b s u c x r vega ot1 where
    f: "np_take2 flux sim_indx k = Inr f" and b: "np_take2 model_bias sim_indx k = Inr b" and
    s: "np_binop fadd f b = Inr s" and u: "np_take2 model_unc sim_indx k = Inr u" and
    x: "np_normal E s u (rng w) = Inr (x, r)" and
    a1: "add_photometry ot (?b @ ''_FLUX'') (?b @ ''_RATE'') (?b @ ''_VEGA'') x vega = Inr ot1" and
    a2: "add_photometry ot1 (?b @ ''_INPUT_FLUX'') (?b @ ''_INPUT_RATE'')
           (?b @ ''_INPUT_VEGA'') f vega = Inr ot'" and
    w': "w' = \<lparr>rng = r,
            stdout = stdout w @ [OutStr filt, OutArr f, OutArr b, OutArr u, OutArr c]\<rparr>"
    by blast
  have ne1: "?b @ ''_FLUX'' \<noteq> ?b @ ''_RATE''" "?b @ ''_FLUX'' \<noteq> ?b @ ''_VEGA''"
    "?b @ ''_RATE'' \<noteq> ?b @ ''_VEGA''"
    by simp_all
  have ne2: "?b @ ''_INPUT_FLUX'' \<noteq> ?b @ ''_INPUT_RATE''"
    "?b @ ''_INPUT_FLUX'' \<noteq> ?b @ ''_INPUT_VEGA''"
    "?b @ ''_INPUT_RATE'' \<noteq> ?b @ ''_INPUT_VEGA''"
    by simp_all
  note f1 = add_photometry_facts [OF a1 ne1]
  note f2 = add_photometry_facts [OF a2 ne2]
  have fm: "f = map (\<lambda>i. flux ! i ! k) sim_indx" by (rule np_take2_map [OF f])
  have bm: "b = map (\<lambda>i. model_bias ! i ! k) sim_indx" by (rule np_take2_map [OF b])
  have um: "u = map (\<lambda>i. model_unc ! i ! k) sim_indx" by (rule np_take2_map [OF u])
  from s fm bm have sm: "s = map (\<lambda>i. fadd (flux ! i ! k) (model_bias ! i ! k)) sim_indx"
    by (simp add: np_binop_def map2_same_index)
  from x sm um w' have c1: "np_normal E (map (\<lambda>i. fadd (flux ! i ! k) (model_bias ! i ! k)) sim_indx)
        (map (\<lambda>i. model_unc ! i ! k) sim_indx) (rng w) = Inr (x, rng w')"
    by simp
  from u have c2: "\<forall>j<length sim_indx. sim_indx ! j < length model_unc \<and>
         k < length (model_unc ! (sim_indx ! j))"
    by (simp add: np_take2_Inr)
  have c3: "map_of ot' (?b @ ''_FLUX'') = Some x"
    using f1(1) f2(4) [of "?b @ ''_FLUX''"] by simp
  have c4: "map_of ot' (?b @ ''_INPUT_FLUX'') = Some (map (\<lambda>i. flux ! i ! k) sim_indx)"
    using f2(1) fm by simp
  have "map_of ot' (?b @ ''_RATE'') = Some (map (\<lambda>y. fdiv y vega) x)"
    "map_of ot' (?b @ ''_VEGA'') = Some (vega_mag (map (\<lambda>y. fdiv y vega) x))"
    using f1(2,3) f2(4) [of "?b @ ''_RATE''"] f2(4) [of "?b @ ''_VEGA''"] by simp_all
  moreover have "map_of ot' (?b @ ''_INPUT_RATE'') = Some (map (\<lambda>y. fdiv y vega) f)"
    "map_of ot' (?b @ ''_INPUT_VEGA'') = Some (vega_mag (map (\<lambda>y. fdiv y vega) f))"
    using f2(2,3) by simp_all
  ultimately have c5: "mag_ok ot' ?b"
    unfolding mag_ok_def by blast
  have c6: "\<forall>n. n \<notin> set (filter_colnames filt) \<longrightarrow> map_of ot' n = map_of ot n"
  proof (intro allI impI)
    fix n
    assume "n \<notin> set (filter_colnames filt)"
    then have "n \<noteq> ?b @ ''_FLUX''" "n \<noteq> ?b @ ''_RATE''" "n \<noteq> ?b @ ''_VEGA''"
      "n \<noteq> ?b @ ''_INPUT_FLUX''" "n \<noteq> ?b @ ''_INPUT_RATE''" "n \<noteq> ?b @ ''_INPUT_VEGA''"
      by (simp_all add: filter_colnames_def)
    with f1(4) [of n] f2(4) [of n] show "map_of ot' n = map_of ot n" by simp
  qed
  have c7: "set (colnames ot') = set (colnames ot) \<union> set (filter_colnames filt)"
    using f1(5) f2(5) by (auto simp: filter_colnames_def)
  have c8: "colnames ot' = colnames ot @ filter_colnames filt"
    if "set (filter_colnames filt) \<inter> set (colnames ot) = {}"
  proof -
    from that have n1: "?b @ ''_FLUX'' \<notin> set (colnames ot)" "?b @ ''_RATE'' \<notin> set (colnames ot)"
      "?b @ ''_VEGA'' \<notin> set (colnames ot)"
      and n2: "?b @ ''_INPUT_FLUX'' \<notin> set (colnames ot)"
      "?b @ ''_INPUT_RATE'' \<notin> set (colnames ot)" "?b @ ''_INPUT_VEGA'' \<notin> set (colnames ot)"
      by (auto simp: filter_colnames_def)
    from f1(6) [OF n1] have o1: "colnames ot1 = colnames ot @ [?b @ ''_FLUX'', ?b @ ''_RATE'',
        ?b @ ''_VEGA'']"
      by simp
    with n2 have "?b @ ''_INPUT_FLUX'' \<notin> set (colnames ot1)"
      "?b @ ''_INPUT_RATE'' \<notin> set (colnames ot1)" "?b @ ''_INPUT_VEGA'' \<notin> set (colnames ot1)"
      by simp_all
    from f2(6) [OF this] o1 show ?thesis
      by (simp add: filter_colnames_def)
  qed
  have c9: "list_all (\<lambda>c. length (snd c) = length sim_indx) ot'"
    if "length x = length sim_indx" "list_all (\<lambda>c. length (snd c) = length sim_indx) ot"
  proof -
    from f1(7) that have "list_all (\<lambda>c. length (snd c) = length sim_indx) ot1" by simp
    moreover from fm have "length f = length sim_indx" by simp
    ultimately show ?thesis using f2(7) by simp
  qed
  from c1 c2 c3 c4 c5 c6 c7 c8 c9 show ?thesis by blast
qed

subsection \<open>The loop over the filters\<close>

lemma sim_filters_Cons:
  "sim_filters E flux model_bias model_unc model_compl sim_indx vega_flux k (filt # fs) ot w
     = (Inr ot', w') \<longleftrightarrow>
   (\<exists>ot1 w1.
      sim_filter E flux model_bias model_unc model_compl sim_indx vega_flux k filt ot w
        = (Inr ot1, w1) \<and>
      sim_filters E flux model_bias model_unc model_compl sim_indx vega_flux (Suc k) fs ot1 w1
        = (Inr ot', w'))"
  by (simp add: bind_c_Inr)

lemma sim_filters_Nil:
  "sim_filters E flux model_bias model_unc model_compl sim_indx vega_flux k [] ot w
     = (Inr ot', w') \<longleftrightarrow> ot' = ot \<and> w' = w"
  by (auto simp: lift_apply)

lemma sim_filters_frame:
  assumes "sim_filters E flux model_bias model_unc model_compl sim_indx vega_flux k fs ot w
             = (Inr ot', w')"
    and "n \<notin> set (concat (map filter_colnames fs))"
  shows "map_of ot' n = map_of ot n"
  using assms
proof (induction fs arbitrary: k ot w)
  case Nil
  then show ?case by (auto simp: lift_apply)
next
  case (Cons filt fs)
  from Cons.prems(1) obtain ot1 w1 where
    p: "sim_filter E flux model_bias model_unc model_compl sim_indx vega_flux k filt ot w
        = (Inr ot1, w1)" and
    r: "sim_filters E flux model_bias model_unc model_compl sim_indx vega_flux (Suc k) fs ot1 w1
        = (Inr ot', w')"
    unfolding sim_filters_Cons by blast
  from Cons.prems(2) have n: "n \<notin> set (filter_colnames filt)"
    "n \<notin> set (concat (map filter_colnames fs))"
    by simp_all
  from sim_filter_struct [OF p] n(1) have "map_of ot1 n = map_of ot n" by blast
  with Cons.IH [OF r n(2)] show ?case by simp
qed

lemma sim_filters_names_set:
  assumes "sim_filters E flux model_bias model_unc model_compl sim_indx vega_flux k fs ot w
             = (Inr ot', w')"
  shows "set (colnames ot') = set (colnames ot) \<union> set (concat (map filter_colnames fs))"
  using assms
proof (induction fs arbitrary: k ot w)
  case Nil
  then show ?case by (auto simp: lift_apply)
next
  case (Cons filt fs)
  from Cons.prems(1) obtain ot1 w1 where
    p: "sim_filter E flux model_bias model_unc model_compl sim_indx vega_flux k filt ot w
        = (Inr ot1, w1)" and
    r: "sim_filters E flux model_bias model_unc model_compl sim_indx vega_flux (Suc k) fs ot1 w1
        = (Inr ot', w')"
    unfolding sim_filters_Cons by blast
  from sim_filter_struct [OF p] have
    "set (colnames ot1) = set (colnames ot) \<union> set (filter_colnames filt)"
    by blast
  with Cons.IH [OF r] show ?case by auto
qed

lemma filter_colnames_later:
  assumes "band_name filt \<notin> band_name ` set fs"
  shows "set (filter_colnames filt) \<inter> set (concat (map filter_colnames fs)) = {}"
proof -
  have "set (filter_colnames filt) \<inter> set (filter_colnames f) = {}" if "f \<in> set fs" for f
  proof -
    from assms that have "band_name filt \<noteq> band_name f" by auto
    then show ?thesis by (rule filter_colnames_disjoint)
  qed
  then show ?thesis by auto
qed

lemma sim_filters_names:
  assumes "sim_filters E flux model_bias model_unc model_compl sim_indx vega_flux k fs ot w
             = (Inr ot', w')"
    and "distinct (map band_name fs)"
    and "set (concat (map filter_colnames fs)) \<inter> set (colnames ot) = {}"
  shows "colnames ot' = colnames ot @ concat (map filter_colnames fs)"
  using assms
proof (induction fs arbitrary: k ot w)
  case Nil
  then show ?case by (auto simp: lift_apply)
next
  case (Cons filt fs)
  from Cons.prems(1) obtain ot1 w1 where
    p: "sim_filter E flux model_bias model_unc model_compl sim_indx vega_flux k filt ot w
        = (Inr ot1, w1)" and
    r: "sim_filters E flux model_bias model_unc model_compl sim_indx vega_flux (Suc k) fs ot1 w1
        = (Inr ot', w')"
    unfolding sim_filters_Cons by blast
  from Cons.prems(3) have d1: "set (filter_colnames filt) \<inter> set (colnames ot) = {}"
    and d2: "set (concat (map filter_colnames fs)) \<inter> set (colnames ot) = {}"
    by auto
  from sim_filter_struct [OF p] d1 have o1: "colnames ot1 = colnames ot @ filter_colnames filt"
    by blast
  from Cons.prems(2) have later: "band_name filt \<notin> band_name ` set fs" and
    dist: "distinct (map band_name fs)"
    by auto
  from filter_colnames_later [OF later] d2 o1
  have "set (concat (map filter_colnames fs)) \<inter> set (colnames ot1) = {}"
    by auto
  from Cons.IH [OF r dist this] o1 show ?case by simp
qed

lemma mag_ok_frame:
  assumes "mag_ok ot (band_name f)"
    and "\<forall>n. n \<notin> set (filter_colnames filt) \<longrightarrow> map_of ot' n = map_of ot n"
    and "band_name f \<noteq> band_name filt"
  shows "mag_ok ot' (band_name f)"
proof -
  from filter_colnames_disjoint [OF assms(3)] have
    "band_name f @ ''_RATE'' \<notin> set (filter_colnames filt)"
    "band_name f @ ''_VEGA'' \<notin> set (filter_colnames filt)"
    "band_name f @ ''_INPUT_RATE'' \<notin> set (filter_colnames filt)"
    "band_name f @ ''_INPUT_VEGA'' \<notin> set (filter_colnames filt)"
    by (auto simp: filter_colnames_def [of f])
  with assms(2) have
    "map_of ot' (band_name f @ ''_RATE'') = map_of ot (band_name f @ ''_RATE'')"
    "map_of ot' (band_name f @ ''_VEGA'') = map_of ot (band_name f @ ''_VEGA'')"
    "map_of ot' (band_name f @ ''_INPUT_RATE'') = map_of ot (band_name f @ ''_INPUT_RATE'')"
    "map_of ot' (band_name f @ ''_INPUT_VEGA'') = map_of ot (band_name f @ ''_INPUT_VEGA'')"
    by blast+
  with assms(1) show ?thesis by (simp add: mag_ok_def)
qed

lemma sim_filter_mag_ok:
  assumes "sim_filter E flux model_bias model_unc model_compl sim_indx vega_flux k filt ot w
             = (Inr ot', w')"
    and "mag_ok ot (band_name f)"
  shows "mag_ok ot' (band_name f)"
proof (cases "band_name f = band_name filt")
  case True
  with sim_filter_struct [OF assms(1)] show ?thesis by auto
next
  case False
  from sim_filter_struct [OF assms(1)] have
    "\<forall>n. n \<notin> set (filter_colnames filt) \<longrightarrow> map_of ot' n = map_of ot n"
    by blast
  from mag_ok_frame [OF assms(2) this False] show ?thesis .
qed

lemma sim_filters_mag_ok:
  assumes "sim_filters E flux model_bias model_unc model_compl sim_indx vega_flux k fs ot w
             = (Inr ot', w')"
  shows "(\<forall>f\<in>set fs. mag_ok ot' (band_name f)) \<and>
         (\<forall>f. mag_ok ot (band_name f) \<longrightarrow> mag_ok ot' (band_name f))"
  using assms
proof (induction fs arbitrary: k ot w)
  case Nil
  then show ?case by (auto simp: lift_apply)
next
  case (Cons filt fs)
  from Cons.prems(1) obtain ot1 w1 where
    p: "sim_filter E flux model_bias model_unc model_compl sim_indx vega_flux k filt ot w
        = (Inr ot1, w1)" and
    r: "sim_filters E flux model_bias model_unc model_compl sim_indx vega_flux (Suc k) fs ot1 w1
        = (Inr ot', w')"
    unfolding sim_filters_Cons by blast
  from sim_filter_struct [OF p] have m1: "mag_ok ot1 (band_name filt)" by blast
  from Cons.IH [OF r] have ih1: "\<forall>f\<in>set fs. mag_ok ot' (band_name f)"
    and ih2: "\<And>f. mag_ok ot1 (band_name f) \<Longrightarrow> mag_ok ot' (band_name f)"
    by blast+
  from ih2 [OF m1] ih1 have "\<forall>f\<in>set (filt # fs). mag_ok ot' (band_name f)" by simp
  moreover have "mag_ok ot' (band_name f)" if "mag_ok ot (band_name f)" for f
    using ih2 [OF sim_filter_mag_ok [OF p that]] .
  ultimately show ?case by blast
qed

lemma sim_filters_draws:
  assumes "sim_filters E flux model_bias model_unc model_compl sim_indx vega_flux k fs ot w
             = (Inr ot', w')"
    and "j < length fs"
  shows "\<exists>x r r'.
      np_normal E (map (\<lambda>i. fadd (flux ! i ! (k + j)) (model_bias ! i ! (k + j))) sim_indx)
        (map (\<lambda>i. model_unc ! i ! (k + j)) sim_indx) r = Inr (x, r') \<and>
      (\<forall>i<length sim_indx. sim_indx ! i < length model_unc \<and>
         k + j < length (model_unc ! (sim_indx ! i))) \<and>
      (band_name (fs ! j) \<notin> band_name ` set (drop (Suc j) fs) \<longrightarrow>
         map_of ot' (band_name (fs ! j) @ ''_FLUX'') = Some x \<and>
         map_of ot' (band_name (fs ! j) @ ''_INPUT_FLUX'')
           = Some (map (\<lambda>i. flux ! i ! (k + j)) sim_indx))"
  using assms
proof (induction fs arbitrary: k ot w j)
  case Nil
  then show ?case by simp
next
  case (Cons filt fs)
  from Cons.prems(1) obtain ot1 w1 where
    p: "sim_filter E flux model_bias model_unc model_compl sim_indx vega_flux k filt ot w
        = (Inr ot1, w1)" and
    r: "sim_filters E flux model_bias model_unc model_compl sim_indx vega_flux (Suc k) fs ot1 w1
        = (Inr ot', w')"
    unfolding sim_filters_Cons by blast
  show ?case
  proof (cases j)
    case 0
    from sim_filter_struct [OF p] obtain x where x:
      "np_normal E (map (\<lambda>i. fadd (flux ! i ! k) (model_bias ! i ! k)) sim_indx)
        (map (\<lambda>i. model_unc ! i ! k) sim_indx) (rng w) = Inr (x, rng w1)"
      "\<forall>i<length sim_indx. sim_indx ! i < length model_unc \<and>
         k < length (model_unc ! (sim_indx ! i))"
      "map_of ot1 (band_name filt @ ''_FLUX'') = Some x"
      "map_of ot1 (band_name filt @ ''_INPUT_FLUX'') = Some (map (\<lambda>i. flux ! i ! k) sim_indx)"
      by blast
    have kept: "map_of ot' (band_name filt @ ''_FLUX'') = Some x \<and>
         map_of ot' (band_name filt @ ''_INPUT_FLUX'')
           = Some (map (\<lambda>i. flux ! i ! k) sim_indx)"
      if "band_name filt \<notin> band_name ` set fs"
    proof -
      from filter_colnames_later [OF that] have
        "band_name filt @ ''_FLUX'' \<notin> set (concat (map filter_colnames fs))"
        "band_name filt @ ''_INPUT_FLUX'' \<notin> set (concat (map filter_colnames fs))"
        by (auto simp: filter_colnames_def [of filt])
      from sim_filters_frame [OF r this(1)] sim_filters_frame [OF r this(2)] x(3,4)
      show ?thesis by simp
    qed
    with 0 x(1,2) show ?thesis by auto
  next
    case (Suc j')
    with Cons.prems(2) have "j' < length fs" by simp
    from Cons.IH [OF r this] Suc show ?thesis by simp
  qed
qed

subsection \<open>The columns of the grid\<close>

lemma normal_draws_facts:
  assumes "normal_draws E" and "np_normal E loc scale r = Inr (x, r')"
    and "length loc = length scale" and "list_all (\<lambda>s. \<not> flt s (Fin 0)) scale"
  shows "length x = length loc \<and> (\<forall>j<length loc. scale ! j = Fin 0 \<longrightarrow> x ! j = loc ! j)"
proof -
  from assms(1,3,4) obtain x0 r0 where "np_normal E loc scale r = Inr (x0, r0)"
    "length x0 = length loc" "\<forall>j<length loc. scale ! j = Fin 0 \<longrightarrow> x0 ! j = loc ! j"
    unfolding normal_draws_def by blast
  with assms(2) show ?thesis by simp
qed

lemma sim_params_frame:
  "sim_params g sim_indx qs ot = Inr ot' \<Longrightarrow> n \<notin> set qs \<Longrightarrow> map_of ot' n = map_of ot n"
proof (induction qs arbitrary: ot)
  case Nil
  then show ?case by simp
next
  case (Cons q qs)
  from Cons.prems(1) obtain c v where cv: "grid_col g q = Inr c" "np_take c sim_indx = Inr v"
    "sim_params g sim_indx qs (set_col ot q v) = Inr ot'"
    by (auto split: sum.splits)
  from Cons.prems(2) have "n \<noteq> q" "n \<notin> set qs" by auto
  with Cons.IH [OF cv(3)] show ?case by (simp add: map_of_set_col)
qed

lemma sim_params_values:
  "sim_params g sim_indx qs ot = Inr ot' \<Longrightarrow> q \<in> set qs \<Longrightarrow>
     \<exists>c. grid_col g q = Inr c \<and> map_of ot' q = Some (map (\<lambda>i. c ! i) sim_indx) \<and>
         list_all (\<lambda>i. i < length c) sim_indx"
proof (induction qs arbitrary: ot)
  case Nil
  then show ?case by simp
next
  case (Cons p qs)
  from Cons.prems(1) obtain c v where cv: "grid_col g p = Inr c" "np_take c sim_indx = Inr v"
    "sim_params g sim_indx qs (set_col ot p v) = Inr ot'"
    by (auto split: sum.splits)
  show ?case
  proof (cases "q \<in> set qs")
    case True
    from Cons.IH [OF cv(3) True] show ?thesis .
  next
    case False
    with Cons.prems(2) have qp: "q = p" by simp
    from sim_params_frame [OF cv(3) False] have "map_of ot' q = map_of (set_col ot p v) q" .
    with qp have "map_of ot' q = Some v" by (simp add: map_of_set_col)
    moreover from cv(2) have "v = map (\<lambda>i. c ! i) sim_indx" by (rule np_take_map)
    moreover from cv(2) have "list_all (\<lambda>i. i < length c) sim_indx"
      by (simp add: np_take_Inr list_all_length)
    ultimately show ?thesis using cv(1) qp by blast
  qed
qed

lemma sim_params_names_set:
  "sim_params g sim_indx qs ot = Inr ot' \<Longrightarrow> set (colnames ot') = set (colnames ot) \<union> set qs"
proof (induction qs arbitrary: ot)
  case Nil
  then show ?case by simp
next
  case (Cons q qs)
  from Cons.prems(1) obtain c v where cv: "grid_col g q = Inr c" "np_take c sim_indx = Inr v"
    "sim_params g sim_indx qs (set_col ot q v) = Inr ot'"
    by (auto split: sum.splits)
  from Cons.IH [OF cv(3)] show ?case by (auto simp: set_colnames_set_col)
qed

lemma sim_params_names:
  "sim_params g sim_indx qs ot = Inr ot' \<Longrightarrow> distinct qs \<Longrightarrow>
     set qs \<inter> set (colnames ot) = {} \<Longrightarrow> colnames ot' = colnames ot @ qs"
proof (induction qs arbitrary: ot)
  case Nil
  then show ?case by simp
next
  case (Cons q qs)
  from Cons.prems(1) obtain c v where cv: "grid_col g q = Inr c" "np_take c sim_indx = Inr v"
    "sim_params g sim_indx qs (set_col ot q v) = Inr ot'"
    by (auto split: sum.splits)
  from Cons.prems(3) have q: "q \<notin> set (colnames ot)" by simp
  then have o1: "colnames (set_col ot q v) = colnames ot @ [q]"
    by (simp add: colnames_set_col)
  with Cons.prems(2,3) have "set qs \<inter> set (colnames (set_col ot q v)) = {}" by auto
  from Cons.IH [OF cv(3) _ this] Cons.prems(2) o1 show ?case by simp
qed

lemma sim_params_lengths:
  "sim_params g sim_indx qs ot = Inr ot' \<Longrightarrow>
     list_all (\<lambda>c. length (snd c) = length sim_indx) ot \<Longrightarrow>
     list_all (\<lambda>c. length (snd c) = length sim_indx) ot'"
proof (induction qs arbitrary: ot)
  case Nil
  then show ?case by simp
next
  case (Cons q qs)
  from Cons.prems(1) obtain c v where cv: "grid_col g q = Inr c" "np_take c sim_indx = Inr v"
    "sim_params g sim_indx qs (set_col ot q v) = Inr ot'"
    by (auto split: sum.splits)
  from cv(2) have "length v = length sim_indx" by (simp add: np_take_Inr)
  from Cons.IH [OF cv(3) set_col_lengths [OF Cons.prems(2) this]] show ?case .
qed

lemma sim_params_total:
  "(\<And>q. q \<in> set qs \<Longrightarrow> \<exists>c. grid_col g q = Inr c \<and> list_all (\<lambda>i. i < length c) sim_indx) \<Longrightarrow>
     \<exists>ot'. sim_params g sim_indx qs ot = Inr ot'"
proof (induction qs arbitrary: ot)
  case Nil
  show ?case by simp
next
  case (Cons q qs)
  from Cons.prems [of q] obtain c where c: "grid_col g q = Inr c"
    "list_all (\<lambda>i. i < length c) sim_indx"
    by auto
  from c(2) have t: "np_take c sim_indx = Inr (map (\<lambda>i. c ! i) sim_indx)"
    by (rule np_take_eq)
  have "\<exists>ot'. sim_params g sim_indx qs (set_col ot q (map (\<lambda>i. c ! i) sim_indx)) = Inr ot'"
    by (rule Cons.IH) (simp add: Cons.prems)
  with c(1) t show ?case by simp
qed

subsection \<open>The loop does not fail\<close>

lemma scale_not_negative:
  assumes "list_all (list_all (\<lambda>s. \<not> flt s (Fin 0))) model_unc"
    and "\<forall>j<length sim_indx. sim_indx ! j < length model_unc \<and>
           k < length (model_unc ! (sim_indx ! j))"
  shows "list_all (\<lambda>s. \<not> flt s (Fin 0)) (map (\<lambda>i. model_unc ! i ! k) sim_indx)"
proof -
  have "\<not> flt (model_unc ! (sim_indx ! j) ! k) (Fin 0)" if "j < length sim_indx" for j
  proof -
    from assms(2) that have r: "sim_indx ! j < length model_unc"
      "k < length (model_unc ! (sim_indx ! j))"
      by auto
    from assms(1) r(1) have "list_all (\<lambda>s. \<not> flt s (Fin 0)) (model_unc ! (sim_indx ! j))"
      by (simp add: list_all_length)
    with r(2) show ?thesis by (simp add: list_all_length)
  qed
  then show ?thesis by (simp add: list_all_length)
qed

lemma fabs_rows: "list_all (list_all (\<lambda>s. \<not> flt s (Fin 0))) (map (map fabs) a)"
  by (simp add: list_all_iff fabs_not_negative)

lemma sim_filter_lengths:
  assumes "normal_draws E"
    and "list_all (list_all (\<lambda>s. \<not> flt s (Fin 0))) model_unc"
    and "sim_filter E flux model_bias model_unc model_compl sim_indx vega_flux k filt ot w
           = (Inr ot', w')"
    and "list_all (\<lambda>c. length (snd c) = length sim_indx) ot"
  shows "list_all (\<lambda>c. length (snd c) = length sim_indx) ot'"
proof -
  from sim_filter_struct [OF assms(3)] obtain x where x:
    "np_normal E (map (\<lambda>i. fadd (flux ! i ! k) (model_bias ! i ! k)) sim_indx)
       (map (\<lambda>i. model_unc ! i ! k) sim_indx) (rng w) = Inr (x, rng w')"
    "\<forall>j<length sim_indx. sim_indx ! j < length model_unc \<and>
       k < length (model_unc ! (sim_indx ! j))"
    "length x = length sim_indx \<longrightarrow> list_all (\<lambda>c. length (snd c) = length sim_indx) ot \<longrightarrow>
       list_all (\<lambda>c. length (snd c) = length sim_indx) ot'"
    by blast
  from normal_draws_facts [OF assms(1) x(1) _ scale_not_negative [OF assms(2) x(2)]]
  have "length x = length sim_indx" by simp
  with x(3) assms(4) show ?thesis by simp
qed

lemma sim_filters_lengths:
  assumes "normal_draws E"
    and "list_all (list_all (\<lambda>s. \<not> flt s (Fin 0))) model_unc"
    and "sim_filters E flux model_bias model_unc model_compl sim_indx vega_flux k fs ot w
           = (Inr ot', w')"
    and "list_all (\<lambda>c. length (snd c) = length sim_indx) ot"
  shows "list_all (\<lambda>c. length (snd c) = length sim_indx) ot'"
  using assms(3,4)
proof (induction fs arbitrary: k ot w)
  case Nil
  then show ?case by (auto simp: lift_apply)
next
  case (Cons filt fs)
  from Cons.prems(1) obtain ot1 w1 where
    p: "sim_filter E flux model_bias model_unc model_compl sim_indx vega_flux k filt ot w
        = (Inr ot1, w1)" and
    r: "sim_filters E flux model_bias model_unc model_compl sim_indx vega_flux (Suc k) fs ot1 w1
        = (Inr ot', w')"
    unfolding sim_filters_Cons by blast
  from sim_filter_lengths [OF assms(1,2) p Cons.prems(2)]
  have "list_all (\<lambda>c. length (snd c) = length sim_indx) ot1" .
  then show ?case by (rule Cons.IH [OF r])
qed

lemma normal_draws_call:
  assumes "normal_draws E" and "length loc = length scale"
    and "list_all (\<lambda>s. \<not> flt s (Fin 0)) scale"
  shows "\<exists>x r'. np_normal E loc scale r = Inr (x, r')"
proof -
  from assms have "\<exists>x r'. np_normal E loc scale r = Inr (x, r') \<and> length x = length loc \<and>
                 (\<forall>j<length loc. scale ! j = Fin 0 \<longrightarrow> x ! j = loc ! j)"
    unfolding normal_draws_def by blast
  then show ?thesis by blast
qed

lemma sim_filter_total:
  assumes "normal_draws E"
    and "list_all (list_all (\<lambda>s. \<not> flt s (Fin 0))) model_unc"
    and "list_all (\<lambda>i. i < length flux \<and> k < length (flux ! i)) sim_indx"
    and "list_all (\<lambda>i. i < length model_bias \<and> k < length (model_bias ! i)) sim_indx"
    and "list_all (\<lambda>i. i < length model_unc \<and> k < length (model_unc ! i)) sim_indx"
    and "list_all (\<lambda>i. i < length model_compl) sim_indx"
    and "k < length vega_flux"
  shows "\<exists>ot' w'. sim_filter E flux model_bias model_unc model_compl sim_indx vega_flux k
           filt ot w = (Inr ot', w')"
proof -
  let ?f = "map (\<lambda>i. flux ! i ! k) sim_indx"
  let ?b = "map (\<lambda>i. model_bias ! i ! k) sim_indx"
  let ?u = "map (\<lambda>i. model_unc ! i ! k) sim_indx"
  let ?s = "map (\<lambda>i. fadd (flux ! i ! k) (model_bias ! i ! k)) sim_indx"
  have f: "np_take2 flux sim_indx k = Inr ?f" by (rule np_take2_eq [OF assms(3)])
  have b: "np_take2 model_bias sim_indx k = Inr ?b" by (rule np_take2_eq [OF assms(4)])
  have u: "np_take2 model_unc sim_indx k = Inr ?u" by (rule np_take2_eq [OF assms(5)])
  have s: "np_binop fadd ?f ?b = Inr ?s" by (simp add: np_binop_def map2_same_index)
  have c: "np_take model_compl sim_indx = Inr (map (\<lambda>i. model_compl ! i) sim_indx)"
    by (rule np_take_eq [OF assms(6)])
  from assms(7) have v: "py_nth vega_flux k = Inr (vega_flux ! k)" by (simp add: py_nth_def)
  from assms(5) have "\<forall>j<length sim_indx. sim_indx ! j < length model_unc \<and>
      k < length (model_unc ! (sim_indx ! j))"
    by (simp add: list_all_length)
  from normal_draws_call [OF assms(1) _ scale_not_negative [OF assms(2) this], of ?s "rng w"]
  obtain x r where x: "np_normal E ?s ?u (rng w) = Inr (x, r)"
    by auto
  show ?thesis
    unfolding sim_filter_run [OF f b s u c x v] add_photometry_eq by blast
qed

lemma sim_filters_total:
  assumes "normal_draws E"
    and "list_all (list_all (\<lambda>s. \<not> flt s (Fin 0))) model_unc"
    and "list_all (\<lambda>i. i < length flux \<and> n \<le> length (flux ! i)) sim_indx"
    and "list_all (\<lambda>i. i < length model_bias \<and> n \<le> length (model_bias ! i)) sim_indx"
    and "list_all (\<lambda>i. i < length model_unc \<and> n \<le> length (model_unc ! i)) sim_indx"
    and "list_all (\<lambda>i. i < length model_compl) sim_indx"
    and "n \<le> length vega_flux"
    and "k + length fs \<le> n"
  shows "\<exists>ot' w'. sim_filters E flux model_bias model_unc model_compl sim_indx vega_flux k
           fs ot w = (Inr ot', w')"
  using assms(8)
proof (induction fs arbitrary: k ot w)
  case Nil
  show ?case by (simp add: lift_apply)
next
  case (Cons filt fs)
  then have k: "k < n" "Suc k + length fs \<le> n" by simp_all
  from assms(3) k(1) have r1: "list_all (\<lambda>i. i < length flux \<and> k < length (flux ! i)) sim_indx"
    by (auto simp: list_all_iff)
  from assms(4) k(1) have r2:
    "list_all (\<lambda>i. i < length model_bias \<and> k < length (model_bias ! i)) sim_indx"
    by (auto simp: list_all_iff)
  from assms(5) k(1) have r3:
    "list_all (\<lambda>i. i < length model_unc \<and> k < length (model_unc ! i)) sim_indx"
    by (auto simp: list_all_iff)
  from assms(7) k(1) have r4: "k < length vega_flux" by simp
  from sim_filter_total [OF assms(1,2) r1 r2 r3 assms(6) r4, of filt ot w] obtain ot1 w1 where
    p: "sim_filter E flux model_bias model_unc model_compl sim_indx vega_flux k filt ot w
        = (Inr ot1, w1)"
    by blast
  from Cons.IH [OF k(2), of ot1 w1] obtain ot' w' where
    "sim_filters E flux model_bias model_unc model_compl sim_indx vega_flux (Suc k) fs ot1 w1
        = (Inr ot', w')"
    by blast
  with p show ?case unfolding sim_filters_Cons by blast
qed

subsection \<open>The run on the small grid\<close>

lemmas run_defs =
  gen_SimObs_from_sedgrid_def gen_SimObs_indexed_def get_model_compl_def
  print_range_def get_gridweights_def raw_weights_def normalise_def sample_indx_def
  sim_filter_def add_photometry_def vega_mag_def bind_c_def lift_def print_c_def seed_c_def
  rng_c_def short_filters_def band_name_def upper_def lower_def upper_char_def
  lower_char_def np_max_axis1_def np_col_def np_take_def np_take2_def np_binop_def
  py_nth_def np_sum_def set_col_def get_col_def grid_keys_def grid_col_def
  not_present_message_def fgt_def demo_env_def demo_grid_def demo_noise_def demo_world_def
  demo_table_def demo_stdout_def valid_p_def Let_def eval_nat_numeral
  overflow_small in_range_small in_range_zero

lemma demo_run:
  "gen_SimObs_indexed demo_env demo_grid demo_noise 2 ''max'' (Some 1) None ''weight''
     demo_world = (Inr ([1, 0], demo_table), \<lparr>rng = 5, stdout = demo_stdout\<rparr>)"
  by (simp add: run_defs)


lemma demo_checks_p: "choice_checks_p demo_env"
  by (simp add: choice_checks_p_def demo_env_def)

lemma demo_shapes: "shapes_agree demo_grid demo_noise"
  by (simp add: shapes_agree_def demo_grid_def demo_noise_def)

lemma demo_zero_compl:
  "get_model_compl demo_zero_grid demo_noise ''max'' demo_world = (Inr [Fin 1, Fin 1], demo_world)"
  by (simp add: run_defs demo_zero_grid_def)

lemma demo_zero_raw:
  "raw_weights demo_zero_grid ''weight'' [Fin 1, Fin 1] = Inr [Fin 0, Fin 0]"
  by (simp add: run_defs demo_zero_grid_def)

lemma demo_seed_resets: "seed_resets demo_env"
  by (simp add: seed_resets_def demo_env_def)


section \<open>The claims\<close>



text \<open>
  C7. A completeness filter other than "max" (in any case) is looked up among the band
  tokens of the grid's filters, the upper-cased text after the last underscore of each
  identifier, by its own upper-cased name. When no token matches, the generator raises
  \<^verbatim>\<open>NotImplementedError\<close> with a message that lists the tokens, before anything is drawn or
  printed: the world is as it was. When one matches, the first such filter gives the
  completeness of each model. With "max", the completeness of a model is the maximum of
  its row.
\<close>

theorem completeness_filter_resolution:
  "(lower compl_filter \<noteq> ''max'' \<and> upper compl_filter \<notin> set (short_filters g) \<longrightarrow>
      gen_SimObs_from_sedgrid E g nm nsim compl_filter ranseed vega_fname weight_to_use w =
        (Inl (NotImplementedError (not_present_message compl_filter (short_filters g))), w) \<and>
      (\<forall>t\<in>set (short_filters g).
         \<exists>a b. not_present_message compl_filter (short_filters g) = a @ t @ b)) \<and>
   (lower compl_filter \<noteq> ''max'' \<and> upper compl_filter \<in> set (short_filters g) \<longrightarrow>
      (\<exists>k<length (filters g).
         band_name (filters g ! k) = upper compl_filter \<and>
         (\<forall>j<k. band_name (filters g ! j) \<noteq> upper compl_filter) \<and>
         get_model_compl g nm compl_filter w =
           (np_col (completeness nm) k,
            w\<lparr>stdout := stdout w @ [OutStr (''Completeness from '' @ filters g ! k)]\<rparr>) \<and>
         (list_all (\<lambda>row. k < length row) (completeness nm) \<longrightarrow>
            np_col (completeness nm) k = Inr (map (\<lambda>row. row ! k) (completeness nm))))) \<and>
   (lower compl_filter = ''max'' \<longrightarrow>
      get_model_compl g nm compl_filter w = (np_max_axis1 (completeness nm), w) \<and>
      (list_all (\<lambda>row. row \<noteq> [] \<and> NaN \<notin> set row) (completeness nm) \<longrightarrow>
         (\<exists>mc. np_max_axis1 (completeness nm) = Inr mc \<and>
               length mc = length (completeness nm) \<and>
               (\<forall>i<length mc. mc ! i \<in> set (completeness nm ! i) \<and>
                  (\<forall>y\<in>set (completeness nm ! i). fle y (mc ! i)))))) \<and>
   (\<forall>a b. CHR ''_'' \<notin> set b \<longrightarrow> band_name (a @ ''_'' @ b) = upper b) \<and>
   (\<forall>f. CHR ''_'' \<notin> set f \<longrightarrow> band_name f = upper f)"
proof (intro conjI impI allI)
  assume "lower compl_filter \<noteq> ''max'' \<and> upper compl_filter \<notin> set (short_filters g)"
  then show "gen_SimObs_from_sedgrid E g nm nsim compl_filter ranseed vega_fname weight_to_use w
      = (Inl (NotImplementedError (not_present_message compl_filter (short_filters g))), w)"
    by (simp add: gen_fails_with_get_model_compl get_model_compl_absent)
next
  show "\<forall>t\<in>set (short_filters g).
      \<exists>a b. not_present_message compl_filter (short_filters g) = a @ t @ b"
  proof
    fix t
    assume "t \<in> set (short_filters g)"
    from join_contains [OF this, of "[CHR 0x0A]"] obtain a b where
      "join [CHR 0x0A] (short_filters g) = a @ t @ b"
      by blast
    then have "not_present_message compl_filter (short_filters g) =
        (''Requested completeness filter not present:'' @ upper compl_filter
         @ [CHR 0x0A] @ ''Possible filters:'' @ a) @ t @ b"
      by (simp add: not_present_message_def)
    then show "\<exists>a b. not_present_message compl_filter (short_filters g) = a @ t @ b"
      by blast
  qed
next
  assume "lower compl_filter \<noteq> ''max'' \<and> upper compl_filter \<in> set (short_filters g)"
  then have "lower compl_filter \<noteq> ''max''" "upper compl_filter \<in> set (short_filters g)"
    by simp_all
  from get_model_compl_present [OF this, of nm w] show "\<exists>k<length (filters g).
         band_name (filters g ! k) = upper compl_filter \<and>
         (\<forall>j<k. band_name (filters g ! j) \<noteq> upper compl_filter) \<and>
         get_model_compl g nm compl_filter w =
           (np_col (completeness nm) k,
            w\<lparr>stdout := stdout w @ [OutStr (''Completeness from '' @ filters g ! k)]\<rparr>) \<and>
         (list_all (\<lambda>row. k < length row) (completeness nm) \<longrightarrow>
            np_col (completeness nm) k = Inr (map (\<lambda>row. row ! k) (completeness nm)))"
    using np_col_eq by blast
next
  assume "lower compl_filter = ''max''"
  then show "get_model_compl g nm compl_filter w = (np_max_axis1 (completeness nm), w)"
    by (rule get_model_compl_max)
next
  assume "list_all (\<lambda>row. row \<noteq> [] \<and> NaN \<notin> set row) (completeness nm)"
  then show "\<exists>mc. np_max_axis1 (completeness nm) = Inr mc \<and>
               length mc = length (completeness nm) \<and>
               (\<forall>i<length mc. mc ! i \<in> set (completeness nm ! i) \<and>
                  (\<forall>y\<in>set (completeness nm ! i). fle y (mc ! i)))"
    by (rule np_max_axis1_maxima)
next
  fix a b
  assume "CHR ''_'' \<notin> set b"
  then show "band_name (a @ ''_'' @ b) = upper b" by (rule band_name_suffix)
next
  fix f
  assume "CHR ''_'' \<notin> set f"
  then show "band_name f = upper f" by (rule band_name_whole)
qed

theorem completeness_filter_resolution_witness:
  "gen_SimObs_from_sedgrid demo_env demo_grid demo_noise 2 ''f81W'' (Some 1) None ''weight''
     demo_world
     = (Inl (NotImplementedError
          ''Requested completeness filter not present:F81W\<newline>Possible filters:F475W\<newline>F814W''),
        demo_world) \<and>
   get_model_compl demo_grid demo_noise ''f814W'' demo_world
     = (Inr [Fin 1, Fin 0.25],
        demo_world\<lparr>stdout := [OutStr ''Completeness from HST_ACS_WFC_f814w'']\<rparr>) \<and>
   get_model_compl demo_grid demo_noise ''MAX'' demo_world = (Inr [Fin 1, Fin 1], demo_world) \<and>
   band_name ''HST_ACS_WFC_f814w'' = ''F814W''"
proof -
  have sf: "short_filters demo_grid = [''F475W'', ''F814W'']"
    by (simp add: run_defs)
  have absent: "lower ''f81W'' \<noteq> ''max'' \<and> upper ''f81W'' \<notin> set (short_filters demo_grid)"
    by (simp add: sf) (simp add: run_defs)
  have present: "lower ''f814W'' \<noteq> ''max'' \<and> upper ''f814W'' \<in> set (short_filters demo_grid)"
    by (simp add: sf) (simp add: run_defs)
  have mx: "lower ''MAX'' = ''max''"
    by (simp add: run_defs)
  have msg: "not_present_message ''f81W'' (short_filters demo_grid) =
      ''Requested completeness filter not present:F81W\<newline>Possible filters:F475W\<newline>F814W''"
    by (simp add: sf) (simp add: run_defs)
  note inst = completeness_filter_resolution
  from inst [of "''f81W''" demo_grid demo_env demo_noise 2 "Some 1" None "''weight''" demo_world]
    absent msg
  have c1: "gen_SimObs_from_sedgrid demo_env demo_grid demo_noise 2 ''f81W'' (Some 1) None
      ''weight'' demo_world
     = (Inl (NotImplementedError
          ''Requested completeness filter not present:F81W\<newline>Possible filters:F475W\<newline>F814W''),
        demo_world)"
    by simp
  from inst [of "''f814W''" demo_grid demo_env demo_noise 2 "Some 1" None "''weight''" demo_world]
    present
  obtain k where k: "k < length (filters demo_grid)"
    "band_name (filters demo_grid ! k) = upper ''f814W''"
    "get_model_compl demo_grid demo_noise ''f814W'' demo_world =
       (np_col (completeness demo_noise) k,
        demo_world\<lparr>stdout := stdout demo_world
           @ [OutStr (''Completeness from '' @ filters demo_grid ! k)]\<rparr>)"
    by blast
  from k(1) have "k = 0 \<or> k = 1" by (auto simp: demo_grid_def)
  with k(2) have "k = 1" by (auto simp: run_defs)
  with k(3) have c2: "get_model_compl demo_grid demo_noise ''f814W'' demo_world
     = (Inr [Fin 1, Fin 0.25],
        demo_world\<lparr>stdout := [OutStr ''Completeness from HST_ACS_WFC_f814w'']\<rparr>)"
    by (simp add: run_defs)
  from inst [of "''MAX''" demo_grid demo_env demo_noise 2 "Some 1" None "''weight''" demo_world]
    mx
  have "get_model_compl demo_grid demo_noise ''MAX'' demo_world
      = (np_max_axis1 (completeness demo_noise), demo_world)"
    by blast
  then have c3: "get_model_compl demo_grid demo_noise ''MAX'' demo_world
      = (Inr [Fin 1, Fin 1], demo_world)"
    by (simp add: run_defs)
  have c4: "band_name ''HST_ACS_WFC_f814w'' = ''F814W''"
    by (simp add: run_defs)
  from c1 c2 c3 c4 show ?thesis by blast
qed

text \<open>
  C10. \<^verbatim>\<open>getFluxerr\<close> reads, for each filter, the column whose name is the filter identifier
  of the program followed by \<^verbatim>\<open>_err\<close>: the aliases play no part in it. So on a catalog
  that names no column that way it fails with a missing column, \<^verbatim>\<open>KeyError\<close>, as soon as
  there is a filter to read, while \<^verbatim>\<open>getFlux\<close>, which goes through the aliases, returns
  the fluxes.
\<close>

theorem getFluxerr_bypasses_aliases:
  "getFluxerr (obs\<lparr>filter_aliases := aliases\<rparr>) num = getFluxerr obs num \<and>
   (getFluxerr obs num = Inr errs \<longleftrightarrow>
      length errs = length (obs_filters obs) \<and>
      (\<forall>i<length (obs_filters obs).
         \<exists>c. map_of (columns (data obs)) (obs_filters obs ! i @ ''_err'') = Some c \<and>
             py_item c num = Inr (errs ! i))) \<and>
   (obs_filters obs \<noteq> [] \<and>
    list_all (\<lambda>ok. map_of (columns (data obs)) (ok @ ''_err'') = None) (obs_filters obs) \<and>
    obs_vega_flux obs = Some vega \<and> length vega = length (obs_filters obs) \<and>
    table_row (data obs) num = Inr d \<and>
    list_all (\<lambda>ok. \<exists>alias c. map_of (filter_aliases obs) ok = Some alias \<and>
                map_of (columns (data obs)) alias = Some c \<and> d < length c) (obs_filters obs)
    \<longrightarrow>
      getFluxerr obs num = Inl KeyError \<and>
      (\<exists>flux. getFlux obs num False = Inr flux \<and> length flux = length (obs_filters obs) \<and>
         (\<forall>i<length flux. \<exists>alias c.
            map_of (filter_aliases obs) (obs_filters obs ! i) = Some alias \<and>
            map_of (columns (data obs)) alias = Some c \<and>
            flux ! i = fmul (c ! d) (vega ! i))))"
proof (intro conjI impI)
  show "getFluxerr (obs\<lparr>filter_aliases := aliases\<rparr>) num = getFluxerr obs num"
    by (simp add: getFluxerr_def)
next
  show "getFluxerr obs num = Inr errs \<longleftrightarrow>
      length errs = length (obs_filters obs) \<and>
      (\<forall>i<length (obs_filters obs).
         \<exists>c. map_of (columns (data obs)) (obs_filters obs ! i @ ''_err'') = Some c \<and>
             py_item c num = Inr (errs ! i))"
    by (rule getFluxerr_Inr)
next
  assume h: "obs_filters obs \<noteq> [] \<and>
    list_all (\<lambda>ok. map_of (columns (data obs)) (ok @ ''_err'') = None) (obs_filters obs) \<and>
    obs_vega_flux obs = Some vega \<and> length vega = length (obs_filters obs) \<and>
    table_row (data obs) num = Inr d \<and>
    list_all (\<lambda>ok. \<exists>alias c. map_of (filter_aliases obs) ok = Some alias \<and>
                map_of (columns (data obs)) alias = Some c \<and> d < length c) (obs_filters obs)"
  then show "getFluxerr obs num = Inl KeyError"
    by (simp add: getFluxerr_missing)
  from h show "\<exists>flux. getFlux obs num False = Inr flux \<and>
         length flux = length (obs_filters obs) \<and>
         (\<forall>i<length flux. \<exists>alias c.
            map_of (filter_aliases obs) (obs_filters obs ! i) = Some alias \<and>
            map_of (columns (data obs)) alias = Some c \<and>
            flux ! i = fmul (c ! d) (vega ! i))"
    using getFlux_aliased [of obs vega num d] by blast
qed

theorem getFluxerr_bypasses_aliases_witness:
  "getFluxerr demo_obs 1 = Inl KeyError \<and> getFlux demo_obs 1 False = Inr [Fin 6] \<and>
   getFluxerr (demo_obs\<lparr>filter_aliases := []\<rparr>) 1 = getFluxerr demo_obs 1"
proof -
  have h: "obs_filters demo_obs \<noteq> [] \<and>
    list_all (\<lambda>ok. map_of (columns (data demo_obs)) (ok @ ''_err'') = None)
      (obs_filters demo_obs) \<and>
    obs_vega_flux demo_obs = Some [Fin 3] \<and> length [Fin 3] = length (obs_filters demo_obs) \<and>
    table_row (data demo_obs) 1 = Inr 1 \<and>
    list_all (\<lambda>ok. \<exists>alias c. map_of (filter_aliases demo_obs) ok = Some alias \<and>
                map_of (columns (data demo_obs)) alias = Some c \<and> 1 < length c)
      (obs_filters demo_obs)"
    by (simp add: demo_obs_def table_row_def)
  from getFluxerr_bypasses_aliases
      [where obs = demo_obs and aliases = "[]" and num = 1 and vega = "[Fin 3]" and d = 1] h
  have a: "getFluxerr (demo_obs\<lparr>filter_aliases := []\<rparr>) 1 = getFluxerr demo_obs 1"
    and b: "getFluxerr demo_obs 1 = Inl KeyError"
    and "\<exists>flux. getFlux demo_obs 1 False = Inr flux \<and>
         length flux = length (obs_filters demo_obs) \<and>
         (\<forall>i<length flux. \<exists>alias c.
            map_of (filter_aliases demo_obs) (obs_filters demo_obs ! i) = Some alias \<and>
            map_of (columns (data demo_obs)) alias = Some c \<and>
            flux ! i = fmul (c ! 1) ([Fin 3] ! i))"
    by blast+
  then obtain flux where f: "getFlux demo_obs 1 False = Inr flux" "length flux = 1"
    "\<forall>i<length flux. \<exists>alias c.
            map_of (filter_aliases demo_obs) (obs_filters demo_obs ! i) = Some alias \<and>
            map_of (columns (data demo_obs)) alias = Some c \<and>
            flux ! i = fmul (c ! 1) ([Fin 3] ! i)"
    by (auto simp: demo_obs_def)
  from f(2,3) have "flux ! 0 = Fin 6"
    by (auto simp: demo_obs_def in_range_small)
  with f(2) have "flux = [Fin 6]"
    by (cases flux) auto
  with f(1) a b show ?thesis by simp
qed

text \<open>
  C1. Whenever the generator returns a table, and so whenever \<^verbatim>\<open>numpy.random.choice\<close> has
  accepted the selection weights (it checks them before it draws), the weights passed to
  it are a probability vector over the models of the grid: one entry for each model, entry
  \<open>i\<close> the quotient of \<open>weight[i] * completeness[i]\<close> by the sum of these products, which
  is finite and not zero, no entry negative, and the entries sum to 1 within tolerance.
  A quotient too small for a double is the entry zero, so the sum can miss 1 by the
  underflow threshold for each model; it is within \<^verbatim>\<open>2**-26\<close> of 1 in any case, which is
  what \<^verbatim>\<open>numpy.random.choice\<close> checks.
\<close>

theorem selection_distribution:
  assumes "choice_checks_p E"
    and "shapes_agree g nm"
    and "gen_SimObs_indexed E g nm nsim compl_filter ranseed vega_fname weight_to_use w
           = (Inr (sim_indx, ot), w')"
  shows "\<exists>model_compl wts raw rs qs.
      fst (get_model_compl g nm compl_filter w) = Inr model_compl \<and>
      grid_col g weight_to_use = Inr wts \<and>
      np_binop fmul wts model_compl = Inr raw \<and>
      (\<exists>r r'. np_choice E (length (seds g)) nsim (normalise raw) r = Inr (sim_indx, r')) \<and>
      length (normalise raw) = length (seds g) \<and>
      raw = map Fin rs \<and> sum_list rs \<noteq> 0 \<and> np_sum raw = Fin (sum_list rs) \<and>
      normalise raw = map Fin qs \<and>
      (\<forall>i<length (seds g).
         normalise raw ! i = in_range (rs ! i / sum_list rs) \<and> 0 \<le> qs ! i \<and>
         (qs ! i = rs ! i / sum_list rs \<or>
          (qs ! i = 0 \<and> \<bar>rs ! i / sum_list rs\<bar> \<le> underflow_threshold))) \<and>
      np_sum (normalise raw) = Fin (sum_list qs) \<and>
      \<bar>sum_list qs - 1\<bar> \<le> 1 / 2 ^ 26 \<and>
      \<bar>sum_list qs - 1\<bar> \<le> real (length (seds g)) * underflow_threshold \<and>
      (\<forall>i<length (seds g). Fin (rs ! i) = fmul (wts ! i) (model_compl ! i))"
proof -
  from gen_indexed_Inr [OF assms(3)] obtain model_compl w1 gridweights r0 r1 where s:
    "get_model_compl g nm compl_filter w = (Inr model_compl, w1)"
    "get_gridweights g weight_to_use model_compl = Inr gridweights"
    "np_choice E (length (seds g)) nsim gridweights r0 = Inr (sim_indx, r1)"
    by blast
  from s(2) obtain wts raw where r:
    "grid_col g weight_to_use = Inr wts" "np_binop fmul wts model_compl = Inr raw"
    "gridweights = normalise raw"
    by (auto simp: get_gridweights_Inr)
  from assms(1) s(3) r(3) have "valid_p (length (seds g)) (normalise raw)"
    unfolding choice_checks_p_def by (metis sum.distinct(1))
  from normalise_valid [OF this] obtain rs qs where v:
    "raw = map Fin rs" "length rs = length (seds g)" "sum_list rs \<noteq> 0"
    "np_sum raw = Fin (sum_list rs)" "normalise raw = map Fin qs" "length qs = length (seds g)"
    "\<forall>i<length (seds g). 0 \<le> qs ! i \<and>
        (qs ! i = rs ! i / sum_list rs \<or>
         (qs ! i = 0 \<and> \<bar>rs ! i / sum_list rs\<bar> \<le> underflow_threshold))"
    "np_sum (normalise raw) = Fin (sum_list qs)" "\<bar>sum_list qs - 1\<bar> \<le> 1 / 2 ^ 26"
    "\<bar>sum_list qs - 1\<bar> \<le> real (length (seds g)) * underflow_threshold"
    by blast
  have quot: "normalise raw ! i = in_range (rs ! i / sum_list rs)"
    if "i < length (seds g)" for i
    using that v(1,2,3,4) by (simp add: normalise_def)
  from v(7) quot have entries: "\<forall>i<length (seds g).
         normalise raw ! i = in_range (rs ! i / sum_list rs) \<and> 0 \<le> qs ! i \<and>
         (qs ! i = rs ! i / sum_list rs \<or>
          (qs ! i = 0 \<and> \<bar>rs ! i / sum_list rs\<bar> \<le> underflow_threshold))"
    by simp
  from grid_col_length [OF assms(2) r(1)] get_model_compl_length [OF s(1)] assms(2)
  have same: "length wts = length model_compl"
    by (simp add: shapes_agree_def)
  have prod: "\<forall>i<length (seds g). Fin (rs ! i) = fmul (wts ! i) (model_compl ! i)"
  proof -
    from same r(2) have "raw = map2 fmul wts model_compl"
      by (simp add: np_binop_def)
    with v(1) have eq: "map Fin rs = map2 fmul wts model_compl" by simp
    then have "\<forall>i<length rs. map Fin rs ! i = map2 fmul wts model_compl ! i" by simp
    moreover from eq same have "length wts = length rs"
      by (metis length_map length_zip min.idem)
    ultimately show ?thesis using v(2) same by auto
  qed
  from v(5,6) have nlen: "length (normalise raw) = length (seds g)"
    by simp
  from s(1) have "fst (get_model_compl g nm compl_filter w) = Inr model_compl" by simp
  with r(1,2) s(3) r(3) nlen v(1,3,4,5,8,9,10) entries prod show ?thesis
    by blast
qed

theorem selection_distribution_witness:
  "\<exists>model_compl wts raw rs qs.
      fst (get_model_compl demo_grid demo_noise ''max'' demo_world) = Inr model_compl \<and>
      grid_col demo_grid ''weight'' = Inr wts \<and>
      np_binop fmul wts model_compl = Inr raw \<and>
      (\<exists>r r'. np_choice demo_env (length (seds demo_grid)) 2 (normalise raw) r
                = Inr ([1, 0], r')) \<and>
      length (normalise raw) = length (seds demo_grid) \<and>
      raw = map Fin rs \<and> sum_list rs \<noteq> 0 \<and> np_sum raw = Fin (sum_list rs) \<and>
      normalise raw = map Fin qs \<and>
      (\<forall>i<length (seds demo_grid).
         normalise raw ! i = in_range (rs ! i / sum_list rs) \<and> 0 \<le> qs ! i \<and>
         (qs ! i = rs ! i / sum_list rs \<or>
          (qs ! i = 0 \<and> \<bar>rs ! i / sum_list rs\<bar> \<le> underflow_threshold))) \<and>
      np_sum (normalise raw) = Fin (sum_list qs) \<and>
      \<bar>sum_list qs - 1\<bar> \<le> 1 / 2 ^ 26 \<and>
      \<bar>sum_list qs - 1\<bar> \<le> real (length (seds demo_grid)) * underflow_threshold \<and>
      (\<forall>i<length (seds demo_grid). Fin (rs ! i) = fmul (wts ! i) (model_compl ! i))"
  by (rule selection_distribution [OF demo_checks_p demo_shapes demo_run])

text \<open>
  C4. When the products \<open>weight[i] * completeness[i]\<close> sum to zero, to an infinity or to
  a NaN, the generator ends with an exception and returns no table. The function itself
  does not test the sum: the division fills the weights with NaNs or infinities, and the
  check of \<^verbatim>\<open>numpy.random.choice\<close> on its argument \<^verbatim>\<open>p\<close> refuses them before it draws.
  The random state is then the one there was or the seeded one: nothing was drawn.
\<close>

theorem degenerate_weights_fail:
  assumes "choice_checks_p E"
    and "get_model_compl g nm compl_filter w = (Inr model_compl, w1)"
    and "raw_weights g weight_to_use model_compl = Inr raw"
    and "np_sum raw = Fin 0 \<or> np_sum raw = PInf \<or> np_sum raw = NInf \<or> np_sum raw = NaN"
  shows "\<exists>e w'.
      gen_SimObs_from_sedgrid E g nm nsim compl_filter ranseed vega_fname weight_to_use w
        = (Inl e, w') \<and>
      (rng w' = rng w \<or> np_seed E ranseed (rng w) = Inr (rng w'))"
proof -
  from assms(2) have r1: "rng w1 = rng w" by (rule get_model_compl_rng)
  from assms(3) have gw: "get_gridweights g weight_to_use model_compl = Inr (normalise raw)"
    by (simp add: get_gridweights_def)
  from assms(1) normalise_degenerate [OF assms(4)]
  have rej: "\<exists>e. np_choice E (length (seds g)) nsim (normalise raw) r = Inl e" for r
    by (simp add: choice_checks_p_def)
  obtain x w2 where pr: "print_range model_compl w1 = (x, w2)"
    by (cases "print_range model_compl w1")
  then have r2: "rng w2 = rng w" using r1 by (simp add: print_range_rng)
  let ?gen = "gen_SimObs_from_sedgrid E g nm nsim compl_filter ranseed vega_fname weight_to_use w"
  show ?thesis
  proof (cases x)
    case (Inl e)
    with assms(2) pr have "?gen = (Inl e, w2)"
      by (simp add: gen_SimObs_from_sedgrid_def gen_SimObs_indexed_def Let_def bind_c_def)
    with r2 show ?thesis by auto
  next
    case (Inr u)
    show ?thesis
    proof (cases "np_seed E ranseed (rng w)")
      case (Inl e)
      with assms(2) pr Inr gw r2 have "?gen = (Inl e, w2)"
        by (simp add: gen_SimObs_from_sedgrid_def gen_SimObs_indexed_def Let_def bind_c_def
            lift_def sample_indx_def seed_c_def)
      with r2 show ?thesis by auto
    next
      case seeded: (Inr r0)
      from rej [of r0] obtain e where
        "np_choice E (length (seds g)) nsim (normalise raw) r0 = Inl e"
        by blast
      with assms(2) pr Inr gw r2 seeded have "?gen = (Inl e, w2\<lparr>rng := r0\<rparr>)"
        by (simp add: gen_SimObs_from_sedgrid_def gen_SimObs_indexed_def Let_def bind_c_def
            lift_def sample_indx_def seed_c_def rng_c_def)
      with seeded show ?thesis by auto
    qed
  qed
qed

theorem degenerate_weights_fail_witness:
  "\<exists>e w'.
      gen_SimObs_from_sedgrid demo_env demo_zero_grid demo_noise 2 ''max'' (Some 1) None
        ''weight'' demo_world = (Inl e, w') \<and>
      (rng w' = rng demo_world \<or> np_seed demo_env (Some 1) (rng demo_world) = Inr (rng w'))"
proof -
  have "np_sum [Fin 0, Fin 0] = Fin 0 \<or> np_sum [Fin 0, Fin 0] = PInf \<or>
      np_sum [Fin 0, Fin 0] = NInf \<or> np_sum [Fin 0, Fin 0] = NaN"
    by (simp add: np_sum_def overflow_small)
  from degenerate_weights_fail [OF demo_checks_p demo_zero_compl demo_zero_raw this]
  show ?thesis .
qed

text \<open>
  C3. Two calls with the same grid, noise model, \<^verbatim>\<open>nsim\<close> and integer seed (and the same
  other arguments) give the same drawn indices and the same table, or the same exception,
  whatever the random state and the output were before each call: seeding with an integer
  forgets the random state there was.
\<close>

theorem seeded_runs_agree:
  assumes "seed_resets E"
  shows "fst (gen_SimObs_indexed E g nm nsim compl_filter (Some seed) vega_fname
                weight_to_use w1)
         = fst (gen_SimObs_indexed E g nm nsim compl_filter (Some seed) vega_fname
                weight_to_use w2) \<and>
         fst (gen_SimObs_from_sedgrid E g nm nsim compl_filter (Some seed) vega_fname
                weight_to_use w1)
         = fst (gen_SimObs_from_sedgrid E g nm nsim compl_filter (Some seed) vega_fname
                weight_to_use w2)"
proof -
  let ?m = "gen_SimObs_indexed E g nm nsim compl_filter (Some seed) vega_fname weight_to_use"
  from reseedsD [OF reseeds_gen_indexed [OF assms], of g nm nsim compl_filter seed vega_fname
      weight_to_use w1 w2]
  have eq: "fst (?m w1) = fst (?m w2)" by blast
  have "fst (bind_c ?m (\<lambda>(sim_indx, ot). lift (Inr ot)) w) =
      (case fst (?m w) of Inl e \<Rightarrow> Inl e | Inr (sim_indx, ot) \<Rightarrow> Inr ot)" for w
    by (simp add: bind_c_pair lift_def split: sum.splits prod.splits)
  with eq show ?thesis
    by (simp add: gen_SimObs_from_sedgrid_def)
qed

theorem seeded_runs_agree_witness:
  "fst (gen_SimObs_indexed demo_env demo_grid demo_noise 2 ''max'' (Some 1) None ''weight''
          \<lparr>rng = 7, stdout = [OutStr ''earlier output'']\<rparr>)
   = Inr ([1, 0], demo_table) \<and>
   fst (gen_SimObs_from_sedgrid demo_env demo_grid demo_noise 2 ''max'' (Some 1) None ''weight''
          \<lparr>rng = 7, stdout = [OutStr ''earlier output'']\<rparr>)
   = fst (gen_SimObs_from_sedgrid demo_env demo_grid demo_noise 2 ''max'' (Some 1) None
          ''weight'' demo_world)"
  using seeded_runs_agree [OF demo_seed_resets, of demo_grid demo_noise 2 "''max''" 1 None
      "''weight''" "\<lparr>rng = 7, stdout = [OutStr ''earlier output'']\<rparr>" demo_world]
    demo_run
  by simp



end
